theory Spec2Isabelle
  imports Main
begin

section \<open>The C++ library operations the driver uses\<close>

text \<open>
  The Open Power Box driver (\<^verbatim>\<open>src/drivers/power/opbdriver.cpp\<close>) is string code: it
  builds request packets with \<^verbatim>\<open>std::to_string\<close>, cuts responses with \<^verbatim>\<open>find\<close>,
  \<^verbatim>\<open>erase\<close> and \<^verbatim>\<open>substr\<close>, and reads numbers with \<^verbatim>\<open>std::stoi\<close>. Several of
  these throw. An exception leaves the function at once and keeps every write made to
  the driver object before it, so each driver function below returns a result
  (\<open>Inl\<close> the exception) together with the driver object as it is at that moment.
\<close>

datatype error =
    Out_of_range        \<comment> \<open>\<^verbatim>\<open>std::out_of_range\<close>\<close>
  | Invalid_argument    \<comment> \<open>\<^verbatim>\<open>std::invalid_argument\<close>\<close>
  | Undefined           \<comment> \<open>an access outside an array: no defined behaviour\<close>

text \<open>
  \<^verbatim>\<open>int i = buf.find(c)\<close>: the position of the first \<open>c\<close>, and \<open>-1\<close> when there is
  none (\<^verbatim>\<open>npos\<close> stored in an \<^verbatim>\<open>int\<close>).
\<close>

fun str_find :: "string \<Rightarrow> char \<Rightarrow> int" where
  "str_find [] c = - 1"
| "str_find (x # xs) c =
     (if x = c then 0
      else (let r = str_find xs c in if r < 0 then - 1 else r + 1))"

text \<open>\<^verbatim>\<open>int k = buf.find_last_of(c)\<close>: the position of the last \<open>c\<close>, or \<open>-1\<close>.\<close>

definition str_find_last_of :: "string \<Rightarrow> char \<Rightarrow> int" where
  "str_find_last_of s c =
     (let r = str_find (rev s) c
      in if r < 0 then - 1 else int (length s) - 1 - r)"

text \<open>
  \<^verbatim>\<open>buf.substr(pos, n)\<close> and \<^verbatim>\<open>buf.erase(pos)\<close>. The source passes \<^verbatim>\<open>int\<close>
  expressions where the library takes \<^verbatim>\<open>size_t\<close>; a negative \<^verbatim>\<open>int\<close> becomes a
  \<^verbatim>\<open>size_t\<close> above every string length. So a negative position throws like any position
  past the end, and a negative count takes all that is left.
  \<^verbatim>\<open>buf.substr(pos)\<close> is \<open>substr buf pos (- 1)\<close>.
\<close>

definition substr :: "string \<Rightarrow> int \<Rightarrow> int \<Rightarrow> error + string" where
  "substr s pos n =
     (if pos < 0 \<or> int (length s) < pos then Inl Out_of_range
      else Inr (if n < 0 then drop (nat pos) s else take (nat n) (drop (nat pos) s)))"

definition erase_from :: "string \<Rightarrow> int \<Rightarrow> error + string" where
  "erase_from s pos =
     (if pos < 0 \<or> int (length s) < pos then Inl Out_of_range
      else Inr (take (nat pos) s))"

text \<open>\<^verbatim>\<open>buf.erase(buf.length()-1)\<close>: on the empty string the position wraps and it throws.\<close>

definition erase_last :: "string \<Rightarrow> error + string" where
  "erase_last s = erase_from s (int (length s) - 1)"

text \<open>\<^verbatim>\<open>buf[0]\<close>: on the empty string this is the terminating NUL.\<close>

definition at0 :: "string \<Rightarrow> char" where
  "at0 s = (case s of [] \<Rightarrow> CHR 0x00 | c # _ \<Rightarrow> c)"

text \<open>\<^verbatim>\<open>std::to_string(int)\<close>: decimal digits, with a minus sign for a negative number.\<close>

definition digit_char :: "nat \<Rightarrow> char" where
  "digit_char d = char_of (48 + d)"

fun decimal :: "nat \<Rightarrow> string" where
  "decimal n = (if n < 10 then [digit_char n] else decimal (n div 10) @ [digit_char (n mod 10)])"

declare decimal.simps [simp del]

definition to_string :: "int \<Rightarrow> string" where
  "to_string i = (if i < 0 then CHR ''-'' # decimal (nat (- i)) else decimal (nat i))"

text \<open>
  \<^verbatim>\<open>std::to_string(double)\<close> prints with \<^verbatim>\<open>%f\<close>. The driver only ever passes a double
  that was converted from an \<^verbatim>\<open>int\<close> (\<^verbatim>\<open>(int)dutyCycle\<close>, \<^verbatim>\<open>0\<close>, \<^verbatim>\<open>1.00\<close>,
  \<^verbatim>\<open>0.00\<close>), for which \<^verbatim>\<open>%f\<close> gives the digits of the integer and six zeros.
\<close>

definition to_string_double :: "int \<Rightarrow> string" where
  "to_string_double n = to_string n @ ''.000000''"

text \<open>
  \<^verbatim>\<open>std::stoi\<close>: \<^verbatim>\<open>strtol\<close> in base 10. White space is skipped, one sign is accepted,
  then the longest run of digits is read; what follows is ignored. No digit at all throws
  \<^verbatim>\<open>std::invalid_argument\<close>, a value outside \<^verbatim>\<open>int\<close> throws \<^verbatim>\<open>std::out_of_range\<close>.
\<close>

definition is_space :: "char \<Rightarrow> bool" where
  "is_space c = (c = CHR '' '' \<or> (9 \<le> (of_char c :: nat) \<and> (of_char c :: nat) \<le> 13))"

definition is_digit :: "char \<Rightarrow> bool" where
  "is_digit c = (48 \<le> (of_char c :: nat) \<and> (of_char c :: nat) \<le> 57)"

definition digit_val :: "char \<Rightarrow> int" where
  "digit_val c = int (of_char c) - 48"

definition digits_value :: "string \<Rightarrow> int" where
  "digits_value ds = foldl (\<lambda>a c. 10 * a + digit_val c) 0 ds"

definition strip_sign :: "string \<Rightarrow> bool \<times> string" where
  "strip_sign s =
     (case s of
        [] \<Rightarrow> (False, [])
      | c # r \<Rightarrow>
          if c = CHR ''-'' then (True, r)
          else if c = CHR ''+'' then (False, r)
          else (False, s))"

definition stoi :: "string \<Rightarrow> error + int" where
  "stoi s =
     (let (neg, body) = strip_sign (dropWhile is_space s);
          ds = takeWhile is_digit body
      in if ds = [] then Inl Invalid_argument
         else (let v = digits_value ds;
                   r = (if neg then - v else v)
               in if r < - 2147483648 \<or> 2147483647 < r then Inl Out_of_range
                  else Inr r))"

text \<open>\<^verbatim>\<open>short(x)\<close>: the \<^verbatim>\<open>int\<close> reduced to 16 bits, two's complement.\<close>

definition to_short :: "int \<Rightarrow> int" where
  "to_short x = (x + 32768) mod 65536 - 32768"

section \<open>The driver object and the serial line\<close>

text \<open>
  The fields of \<^verbatim>\<open>class OPB\<close> (\<^verbatim>\<open>opbdriver.h\<close>) that the protocol code reads and
  writes. \<open>state\<close> and \<open>name_switch\<close> are the arrays \<^verbatim>\<open>std::string state[100]\<close> and
  \<^verbatim>\<open>name_switch[100]\<close>, \<open>Reverse\<close> is \<^verbatim>\<open>bool Reverse[5]\<close> and \<open>Limit\<close> is
  \<^verbatim>\<open>float Limit[6]\<close>; the type \<open>'f\<close> stands for \<^verbatim>\<open>float\<close>. An array is a list, and
  an index outside the list is the error \<open>Undefined\<close>.

  The serial line is driven through \<^verbatim>\<open>tty_write_string\<close> and \<^verbatim>\<open>tty_read_section\<close>,
  library calls whose code is not part of the driver's files. Their results are inputs of
  the model: \<open>rx\<close> lists what the successive reads will return and \<open>wr\<close> what the
  successive writes will return, \<open>tx\<close> collects the packets written, and \<open>logs\<close> the
  messages logged at level INFO or ERROR (\<^verbatim>\<open>LOGF_DEBUG\<close> lines are left out).
\<close>

datatype rd =
    Rd_error string         \<comment> \<open>the read failed; the text is what \<^verbatim>\<open>tty_error_msg\<close> gives\<close>
  | Rd_ok string string     \<comment> \<open>\<^verbatim>\<open>TTY_OK\<close>: the bytes read, the stop character last, and
                                 the bytes that lie in memory behind the copy of them\<close>

datatype level = INFO | ERROR

datatype IPState = IPS_OK | IPS_ALERT

record 'f opb =
  state :: "string list"
  name_switch :: "string list"
  Reverse :: "bool list"
  Limit :: "'f list"
  numDC :: int
  numPWM :: int
  numRelay :: int
  numOn :: int
  numUSB :: int
  Alldc :: bool
  Allpwm :: bool
  rx :: "rd list"
  wr :: "string option list"
  tx :: "string list"
  logs :: "(level \<times> string) list"

definition inside :: "'a list \<Rightarrow> int \<Rightarrow> bool" where
  "inside xs i = (0 \<le> i \<and> i < int (length xs))"

definition LOG_INFO :: "string \<Rightarrow> 'f opb \<Rightarrow> 'f opb" where
  "LOG_INFO msg s = s\<lparr>logs := logs s @ [(INFO, msg)]\<rparr>"

definition LOG_ERROR :: "string \<Rightarrow> 'f opb \<Rightarrow> 'f opb" where
  "LOG_ERROR msg s = s\<lparr>logs := logs s @ [(ERROR, msg)]\<rparr>"

text \<open>
  Modelled from the spec: \<^verbatim>\<open>tty_write_string\<close> is INDI library code outside the
  driver's files; the spec gives it as \<^verbatim>\<open>write(bytes) -> Result<(), Error>\<close>. The next
  entry of \<open>wr\<close> decides the call: \<open>None\<close> (or no entry left) writes the packet,
  \<open>Some msg\<close> fails with that error text and writes nothing.
\<close>

definition tty_write_string :: "string \<Rightarrow> 'f opb \<Rightarrow> string option \<times> 'f opb" where
  "tty_write_string packet s =
     (case wr s of
        [] \<Rightarrow> (None, s\<lparr>tx := tx s @ [packet]\<rparr>)
      | None # rest \<Rightarrow> (None, s\<lparr>wr := rest, tx := tx s @ [packet]\<rparr>)
      | Some msg # rest \<Rightarrow> (Some msg, s\<lparr>wr := rest\<rparr>))"

text \<open>
  Modelled from the spec: \<^verbatim>\<open>tty_read_section\<close> is INDI library code outside the
  driver's files; the spec gives it as
  \<^verbatim>\<open>read_until(terminator_byte, timeout) -> Result<bytes, TimeoutOrIoError>\<close>. The next
  entry of \<open>rx\<close> is the result of the call; with no entry left the read times out.
\<close>

definition tty_read_section :: "'f opb \<Rightarrow> rd \<times> 'f opb" where
  "tty_read_section s =
     (case rx s of
        [] \<Rightarrow> (Rd_error ''Timeout error'', s)
      | r # rest \<Rightarrow> (r, s\<lparr>rx := rest\<rparr>))"

section \<open>Receiving and transmitting\<close>

text \<open>
  \<^verbatim>\<open>OPB::ReceiveTerminated\<close>. A failed read is logged and gives the empty string. A
  successful read fills \<^verbatim>\<open>char res[100]\<close> (more than 100 bytes run past it), and the
  bytes are copied into \<^verbatim>\<open>char ans[nbytes_read]\<close>, which has no room for a terminating
  NUL; \<^verbatim>\<open>std::string answer = ans\<close> therefore reads the copy and goes on through the
  memory behind it up to the first NUL. Then everything before the first \<open>#\<close> is cut
  off; \<^verbatim>\<open>substr\<close> throws when there is no \<open>#\<close>.
\<close>

definition ReceiveTerminated :: "'f opb \<Rightarrow> (error + string) \<times> 'f opb" where
  "ReceiveTerminated s =
     (case tty_read_section s of
        (Rd_error msg, s1) \<Rightarrow> (Inr [], LOG_ERROR (''Serial read error: '' @ msg) s1)
      | (Rd_ok bytes behind, s1) \<Rightarrow>
          if 100 < length bytes then (Inl Undefined, s1)
          else (let answer = takeWhile (\<lambda>c. c \<noteq> CHR 0x00) (bytes @ behind);
                    i = str_find answer CHR ''#''
                in (substr answer i (- 1), s1)))"

text \<open>
  The four overloads of \<^verbatim>\<open>OPB::Transmit\<close>. The packet is
  \<^verbatim>\<open>"# " + command + " " + SwitchNum [+ " " + value] + "\n"\<close>. The overloads with an
  \<^verbatim>\<open>int\<close> or a \<^verbatim>\<open>float\<close> value log the packet at level INFO before writing it.
  A failed write is logged and answered with \<^verbatim>\<open>false\<close>, which no caller looks at.
\<close>

definition packet_head :: "char \<Rightarrow> int \<Rightarrow> string" where
  "packet_head command SwitchNum = ''# '' @ [command] @ '' '' @ to_string SwitchNum"

definition write_packet :: "string \<Rightarrow> 'f opb \<Rightarrow> bool \<times> 'f opb" where
  "write_packet packet s =
     (case tty_write_string packet s of
        (Some msg, s1) \<Rightarrow> (False, LOG_ERROR (''Serial write error: '' @ msg) s1)
      | (None, s1) \<Rightarrow> (True, s1))"

definition Transmit_int :: "char \<Rightarrow> int \<Rightarrow> int \<Rightarrow> 'f opb \<Rightarrow> bool \<times> 'f opb" where
  "Transmit_int command SwitchNum v s =
     (let packet = packet_head command SwitchNum @ '' '' @ to_string v @ [CHR 0x0A]
      in write_packet packet (LOG_INFO packet s))"

definition Transmit_float ::
  "('f \<Rightarrow> string) \<Rightarrow> char \<Rightarrow> int \<Rightarrow> 'f \<Rightarrow> 'f opb \<Rightarrow> bool \<times> 'f opb" where
  "Transmit_float ftos command SwitchNum v s =
     (let packet = packet_head command SwitchNum @ '' '' @ ftos v @ [CHR 0x0A]
      in write_packet packet (LOG_INFO packet s))"

definition Transmit :: "char \<Rightarrow> int \<Rightarrow> 'f opb \<Rightarrow> bool \<times> 'f opb" where
  "Transmit command SwitchNum s =
     write_packet (packet_head command SwitchNum @ [CHR 0x0A]) s"

definition Transmit_string :: "char \<Rightarrow> int \<Rightarrow> string \<Rightarrow> 'f opb \<Rightarrow> bool \<times> 'f opb" where
  "Transmit_string command SwitchNum v s =
     write_packet (packet_head command SwitchNum @ '' '' @ v @ [CHR 0x0A]) s"

text \<open>
  The opening every command function shares after the read:
  \<^verbatim>\<open>int i = buf.find(':'); switchN = short(std::stoi(buf.substr(1, i-1)));\<close>.
  It runs before the tag is looked at, so a response without a number behind its tag
  throws here.
\<close>

definition response_index :: "string \<Rightarrow> error + int" where
  "response_index buf =
     (case substr buf 1 (str_find buf CHR '':'' - 1) of
        Inl e \<Rightarrow> Inl e
      | Inr digits \<Rightarrow>
          (case stoi digits of
             Inl e \<Rightarrow> Inl e
           | Inr n \<Rightarrow> Inr (to_short n)))"

definition error_message :: "string \<Rightarrow> string" where
  "error_message buf = ''The power box returned error: '' @ buf"

definition not_acknowledged :: string where
  "not_acknowledged = ''ERROR : The power box didn't acknowledge the new state.''"

section \<open>Switch commands\<close>

text \<open>
  \<^verbatim>\<open>OPB::SetSwitchUSB(short id, int value)\<close>, in the two halves the read divides it
  into. \<open>SetSwitchUSB_send\<close> is the code before \<^verbatim>\<open>ReceiveTerminated\<close>: it saves the
  cached value in \<^verbatim>\<open>prev\<close>, transmits \<open>S\<close> and writes the requested value into the
  cache. \<open>SetSwitchUSB_recv\<close> is the code from the read on: it strips the first and the
  last character of the response, reads the index behind the tag, and then either logs a
  device error, or (tag \<open>G\<close> with the index asked for) compares the first character of
  the cached value with the first character behind the colon and on a difference puts
  \<^verbatim>\<open>prev\<close> back and logs it. Any other response falls through to \<^verbatim>\<open>return\<close>.
\<close>

definition SetSwitchUSB_send :: "int \<Rightarrow> int \<Rightarrow> 'f opb \<Rightarrow> (error + string) \<times> 'f opb" where
  "SetSwitchUSB_send idx v s =
     (if \<not> inside (state s) idx then (Inl Undefined, s)
      else (let prev = state s ! nat idx;
                s1 = snd (Transmit_int CHR ''S'' idx v s)
            in (Inr prev, s1\<lparr>state := (state s1)[nat idx := to_string v]\<rparr>)))"

definition SetSwitchUSB_recv :: "int \<Rightarrow> string \<Rightarrow> 'f opb \<Rightarrow> (error + unit) \<times> 'f opb" where
  "SetSwitchUSB_recv idx prev s =
     (case ReceiveTerminated s of
        (Inl e, s1) \<Rightarrow> (Inl e, s1)
      | (Inr answer, s1) \<Rightarrow>
          (case erase_last (drop 1 answer) of
             Inl e \<Rightarrow> (Inl e, s1)
           | Inr buf \<Rightarrow>
               (case response_index buf of
                  Inl e \<Rightarrow> (Inl e, s1)
                | Inr switchN \<Rightarrow>
                    if at0 buf = CHR ''E'' then (Inr (), LOG_INFO (error_message buf) s1)
                    else if at0 buf = CHR ''G'' \<and> switchN = idx then
                      (case substr buf (str_find buf CHR '':'' + 1) (- 1) of
                         Inl e \<Rightarrow> (Inl e, s1)
                       | Inr val \<Rightarrow>
                           if at0 (state s1 ! nat idx) = at0 val then (Inr (), s1)
                           else (Inr (),
                                 LOG_INFO not_acknowledged
                                   (s1\<lparr>state := (state s1)[nat idx := prev]\<rparr>)))
                    else (Inr (), s1))))"

definition SetSwitchUSB :: "int \<Rightarrow> int \<Rightarrow> 'f opb \<Rightarrow> (error + unit) \<times> 'f opb" where
  "SetSwitchUSB idx v s =
     (case SetSwitchUSB_send idx v s of
        (Inl e, s1) \<Rightarrow> (Inl e, s1)
      | (Inr prev, s1) \<Rightarrow> SetSwitchUSB_recv idx prev s1)"

text \<open>
  \<^verbatim>\<open>OPB::SetSwitchValueUSB(short id, double value)\<close>, divided the same way. It transmits
  \<^verbatim>\<open>(int)value\<close>, caches \<^verbatim>\<open>std::to_string(value)\<close> of the double, and on a matching
  response compares \<^verbatim>\<open>std::stoi\<close> of the cached text with \<^verbatim>\<open>std::stoi\<close> of the text
  behind the colon. The argument \<open>v\<close> is the integer the double was converted from.
\<close>

definition SetSwitchValueUSB_send ::
  "int \<Rightarrow> int \<Rightarrow> 'f opb \<Rightarrow> (error + string) \<times> 'f opb" where
  "SetSwitchValueUSB_send idx v s =
     (if \<not> inside (state s) idx then (Inl Undefined, s)
      else (let prev = state s ! nat idx;
                s1 = snd (Transmit_int CHR ''S'' idx v s)
            in (Inr prev, s1\<lparr>state := (state s1)[nat idx := to_string_double v]\<rparr>)))"

definition SetSwitchValueUSB_recv ::
  "int \<Rightarrow> string \<Rightarrow> 'f opb \<Rightarrow> (error + unit) \<times> 'f opb" where
  "SetSwitchValueUSB_recv idx prev s =
     (case ReceiveTerminated s of
        (Inl e, s1) \<Rightarrow> (Inl e, s1)
      | (Inr answer, s1) \<Rightarrow>
          (case erase_last (drop 1 answer) of
             Inl e \<Rightarrow> (Inl e, s1)
           | Inr buf \<Rightarrow>
               (case response_index buf of
                  Inl e \<Rightarrow> (Inl e, s1)
                | Inr switchN \<Rightarrow>
                    if at0 buf = CHR ''E'' then (Inr (), LOG_INFO (error_message buf) s1)
                    else if at0 buf = CHR ''G'' \<and> switchN = idx then
                      (case substr buf (str_find buf CHR '':'' + 1) (- 1) of
                         Inl e \<Rightarrow> (Inl e, s1)
                       | Inr val \<Rightarrow>
                           (case stoi (state s1 ! nat idx) of
                              Inl e \<Rightarrow> (Inl e, s1)
                            | Inr cached \<Rightarrow>
                                (case stoi val of
                                   Inl e \<Rightarrow> (Inl e, s1)
                                 | Inr echoed \<Rightarrow>
                                     if cached = echoed then (Inr (), s1)
                                     else (Inr (),
                                           LOG_INFO not_acknowledged
                                             (s1\<lparr>state := (state s1)[nat idx := prev]\<rparr>)))))
                    else (Inr (), s1))))"

definition SetSwitchValueUSB :: "int \<Rightarrow> int \<Rightarrow> 'f opb \<Rightarrow> (error + unit) \<times> 'f opb" where
  "SetSwitchValueUSB idx v s =
     (case SetSwitchValueUSB_send idx v s of
        (Inl e, s1) \<Rightarrow> (Inl e, s1)
      | (Inr prev, s1) \<Rightarrow> SetSwitchValueUSB_recv idx prev s1)"

text \<open>
  \<^verbatim>\<open>OPB::GetSwitchUSB(short id)\<close>. It transmits \<open>G\<close>, strips the first and the last
  character of the response and reads the index. On tag \<open>G\<close> with the index asked for
  it looks for a \<open>;\<close> in what is left, and only when it finds one cuts there and
  stores the text behind the colon in \<^verbatim>\<open>state[id]\<close>.
\<close>

definition GetSwitchUSB :: "int \<Rightarrow> 'f opb \<Rightarrow> (error + unit) \<times> 'f opb" where
  "GetSwitchUSB idx s =
     (case ReceiveTerminated (snd (Transmit CHR ''G'' idx s)) of
        (Inl e, s1) \<Rightarrow> (Inl e, s1)
      | (Inr answer, s1) \<Rightarrow>
          (case erase_last (drop 1 answer) of
             Inl e \<Rightarrow> (Inl e, s1)
           | Inr buf \<Rightarrow>
               (case response_index buf of
                  Inl e \<Rightarrow> (Inl e, s1)
                | Inr switchN \<Rightarrow>
                    if at0 buf = CHR ''E'' then (Inr (), LOG_INFO (error_message buf) s1)
                    else if at0 buf = CHR ''G'' \<and> switchN = idx then
                      (let j = str_find buf CHR '';''
                       in if j \<noteq> - 1 then
                            (case erase_from buf j of
                               Inl e \<Rightarrow> (Inl e, s1)
                             | Inr kept \<Rightarrow>
                                 (case substr kept (str_find buf CHR '':'' + 1) (- 1) of
                                    Inl e \<Rightarrow> (Inl e, s1)
                                  | Inr val \<Rightarrow>
                                      if \<not> inside (state s1) idx then (Inl Undefined, s1)
                                      else (Inr (), s1\<lparr>state := (state s1)[nat idx := val]\<rparr>)))
                          else (Inr (), s1))
                    else (Inr (), s1))))"

section \<open>Name, polarity and limit commands\<close>

text \<open>
  \<^verbatim>\<open>OPB::SetNameUSB(short id, std::string name)\<close>. Before the read it only transmits
  \<open>N\<close>. After the read it logs the response, strips the first character (not the last
  one), reads the index, and on tag \<open>n\<close> with the index asked for cuts at the \<open>;\<close>
  and stores the text behind the colon, the name the device returned, in
  \<^verbatim>\<open>name_switch[id]\<close>.
\<close>

definition SetNameUSB_send :: "int \<Rightarrow> string \<Rightarrow> 'f opb \<Rightarrow> 'f opb" where
  "SetNameUSB_send idx name s = snd (Transmit_string CHR ''N'' idx name s)"



text \<open>
  \<^verbatim>\<open>OPB::SetReverseUSB(short id, int value)\<close>. Before the read it only transmits
  \<open>R\<close>. On tag \<open>r\<close> with the index asked for it cuts at the \<open>;\<close> and stores
  \<^verbatim>\<open>(bool)std::stoi\<close> of the text behind the colon in \<^verbatim>\<open>Reverse[id]\<close>.
\<close>

definition SetReverseUSB_send :: "int \<Rightarrow> int \<Rightarrow> 'f opb \<Rightarrow> 'f opb" where
  "SetReverseUSB_send idx v s = snd (Transmit_int CHR ''R'' idx v s)"



text \<open>
  \<^verbatim>\<open>OPB::SetLimitsUSB(short id, float value)\<close>. Before the read it only transmits
  \<open>L\<close>. After it, the first and the last character are stripped, and on tag \<open>l\<close>
  with the index asked for, if a \<open>;\<close> is left, \<^verbatim>\<open>std::stof\<close> of the text behind
  the colon goes into \<^verbatim>\<open>Limit[id]\<close>. \<^verbatim>\<open>std::to_string(float)\<close> and \<^verbatim>\<open>std::stof\<close>
  are the parameters \<open>ftos\<close> and \<open>stof\<close>.
\<close>

definition SetLimitsUSB_send :: "('f \<Rightarrow> string) \<Rightarrow> int \<Rightarrow> 'f \<Rightarrow> 'f opb \<Rightarrow> 'f opb" where
  "SetLimitsUSB_send ftos idx v s = snd (Transmit_float ftos CHR ''L'' idx v s)"






section \<open>Topology discovery\<close>

text \<open>
  \<^verbatim>\<open>OPB::GetNum\<close>. It transmits \<open>Z 0\<close>, strips the first character of the response and
  looks at the tag before anything is parsed. On tag \<open>Z\<close> with a \<open>;\<close> present it cuts
  there, keeps the text behind the colon, and peels the fields off from the right with
  \<^verbatim>\<open>find_last_of(',')\<close>: \<^verbatim>\<open>numUSB\<close>, \<^verbatim>\<open>numOn\<close>, \<^verbatim>\<open>numRelay\<close>, \<^verbatim>\<open>numPWM\<close>, and
  what is left is \<^verbatim>\<open>numDC\<close>. Each field is assigned as soon as it is read.
\<close>

definition GetNum :: "'f opb \<Rightarrow> (error + unit) \<times> 'f opb" where
  "GetNum s =
     (case ReceiveTerminated (snd (Transmit CHR ''Z'' 0 s)) of
        (Inl e, s1) \<Rightarrow> (Inl e, s1)
      | (Inr answer, s1) \<Rightarrow>
          (let buf = drop 1 answer;
               i = str_find buf CHR '':''
           in if at0 buf = CHR ''E'' then (Inr (), LOG_INFO (error_message buf) s1)
              else if at0 buf = CHR ''Z'' then
                (let j = str_find buf CHR '';''
                 in if j \<noteq> - 1 then
                   (case erase_from buf j of Inl e \<Rightarrow> (Inl e, s1) | Inr kept \<Rightarrow>
                   (case substr kept (i + 1) (- 1) of Inl e \<Rightarrow> (Inl e, s1) | Inr b0 \<Rightarrow>
                   (let k0 = str_find_last_of b0 CHR '',''
                    in case substr b0 (k0 + 1) (- 1) of Inl e \<Rightarrow> (Inl e, s1) | Inr f0 \<Rightarrow>
                   (case stoi f0 of Inl e \<Rightarrow> (Inl e, s1) | Inr usb \<Rightarrow>
                   (let s2 = s1\<lparr>numUSB := usb\<rparr>
                    in case erase_from b0 k0 of Inl e \<Rightarrow> (Inl e, s2) | Inr b1 \<Rightarrow>
                   (let k1 = str_find_last_of b1 CHR '',''
                    in case substr b1 (k1 + 1) (- 1) of Inl e \<Rightarrow> (Inl e, s2) | Inr f1 \<Rightarrow>
                   (case stoi f1 of Inl e \<Rightarrow> (Inl e, s2) | Inr bank \<Rightarrow>
                   (let s3 = s2\<lparr>numOn := bank\<rparr>
                    in case erase_from b1 k1 of Inl e \<Rightarrow> (Inl e, s3) | Inr b2 \<Rightarrow>
                   (let k2 = str_find_last_of b2 CHR '',''
                    in case substr b2 (k2 + 1) (- 1) of Inl e \<Rightarrow> (Inl e, s3) | Inr f2 \<Rightarrow>
                   (case stoi f2 of Inl e \<Rightarrow> (Inl e, s3) | Inr relay \<Rightarrow>
                   (let s4 = s3\<lparr>numRelay := relay\<rparr>
                    in case erase_from b2 k2 of Inl e \<Rightarrow> (Inl e, s4) | Inr b3 \<Rightarrow>
                   (let k3 = str_find_last_of b3 CHR '',''
                    in case substr b3 (k3 + 1) (- 1) of Inl e \<Rightarrow> (Inl e, s4) | Inr f3 \<Rightarrow>
                   (case stoi f3 of Inl e \<Rightarrow> (Inl e, s4) | Inr pwm \<Rightarrow>
                   (let s5 = s4\<lparr>numPWM := pwm\<rparr>
                    in case erase_from b3 k3 of Inl e \<Rightarrow> (Inl e, s5) | Inr b4 \<Rightarrow>
                   (case stoi b4 of Inl e \<Rightarrow> (Inl e, s5) | Inr dc \<Rightarrow>
                      (Inr (), s5\<lparr>numDC := dc\<rparr>))))))))))))))))
                 else (Inr (), s1))
              else (Inr (), s1)))"

section \<open>The poll sweep\<close>

text \<open>
  The polling part of \<^verbatim>\<open>OPB::TimerHit\<close> on a connected driver: the index arithmetic
  at its head and the loop
  \<^verbatim>\<open>for(int k=0;k<numSwitch;k++) GetSwitchUSB(k);\<close>. An exception thrown by one
  \<^verbatim>\<open>GetSwitchUSB\<close> leaves the loop, since nothing in the driver catches it. What
  \<^verbatim>\<open>TimerHit\<close> does behind the loop is \<^verbatim>\<open>std::stof\<close> on cache entries and the
  publication of the numbers to the client, which is floating-point and framework code.
\<close>

definition total :: "'f opb \<Rightarrow> int" where
  "total s = numDC s + numPWM s + numOn s + numRelay s + numUSB s"

definition numSwitch :: "'f opb \<Rightarrow> int" where
  "numSwitch s = (numDC s + numPWM s + numOn s) * 2 + total s + 4"

function poll_from :: "int \<Rightarrow> int \<Rightarrow> 'f opb \<Rightarrow> (error + unit) \<times> 'f opb" where
  "poll_from k n s =
     (if k < n then
        (case GetSwitchUSB (to_short k) s of
           (Inl e, s1) \<Rightarrow> (Inl e, s1)
         | (Inr u, s1) \<Rightarrow> poll_from (k + 1) n s1)
      else (Inr (), s))"
  by pat_completeness auto

termination poll_from
  by (relation "measure (\<lambda>(k, n, s). nat (n - k))") auto

declare poll_from.simps [simp del]

definition TimerHit_sweep :: "'f opb \<Rightarrow> (error + unit) \<times> 'f opb" where
  "TimerHit_sweep s = poll_from 0 (numSwitch s) s"

section \<open>Requests from the client\<close>

text \<open>
  \<^verbatim>\<open>OPB::SetPowerPort\<close>, \<^verbatim>\<open>OPB::SetDewPort\<close> and \<^verbatim>\<open>OPB::SetUSBPort\<close>, the overrides
  of the power interface. The first two act only while the master toggle (\<^verbatim>\<open>Alldc\<close>,
  \<^verbatim>\<open>Allpwm\<close>) is on, and all three answer \<^verbatim>\<open>true\<close> whatever the device said.
  \<open>port\<close> is a \<^verbatim>\<open>size_t\<close>, and \<open>dutyCycle\<close> is \<^verbatim>\<open>(int)dutyCycle\<close>, the only form in
  which the source uses that argument. The line \<^verbatim>\<open>SetUSBPort\<close> prints on the standard
  output is left out.
\<close>

definition to_int :: "int \<Rightarrow> int" where
  "to_int x = (x + 2147483648) mod 4294967296 - 2147483648"

definition bool_int :: "bool \<Rightarrow> int" where
  "bool_int b = (if b then 1 else 0)"

definition SetPowerPort :: "nat \<Rightarrow> bool \<Rightarrow> 'f opb \<Rightarrow> (error + bool) \<times> 'f opb" where
  "SetPowerPort port enabled s =
     (if Alldc s then
        (if \<not> inside (state s) (int port) then (Inl Undefined, s)
         else (let s1 = ''Changing state of '' @ to_string (to_int (int port)) @ '' from ''
                          @ state s ! port @ '' to '' @ to_string (bool_int enabled)
               in case SetSwitchUSB (to_short (int port)) (bool_int enabled) (LOG_INFO s1 s) of
                    (Inl e, s2) \<Rightarrow> (Inl e, s2)
                  | (Inr u, s2) \<Rightarrow> (Inr True, s2)))
      else (Inr True, s))"

definition SetDewPort :: "nat \<Rightarrow> bool \<Rightarrow> int \<Rightarrow> 'f opb \<Rightarrow> (error + bool) \<times> 'f opb" where
  "SetDewPort port enabled dutyCycle s =
     (if Allpwm s then
        (let s1 = ''Setting Dew Port '' @ to_string (to_int (int port)) @ '' to ''
                    @ to_string (bool_int enabled) @ '' with duty cycle '' @ to_string dutyCycle
         in case SetSwitchValueUSB (to_short (numDC s + int port))
                   (if enabled then dutyCycle else 0) (LOG_INFO s1 s) of
              (Inl e, s2) \<Rightarrow> (Inl e, s2)
            | (Inr u, s2) \<Rightarrow> (Inr True, s2))
      else (Inr True, s))"

definition SetUSBPort :: "nat \<Rightarrow> bool \<Rightarrow> 'f opb \<Rightarrow> (error + bool) \<times> 'f opb" where
  "SetUSBPort port enabled s =
     (case SetSwitchUSB (to_short (numDC s + numPWM s + numRelay s + numOn s + int port))
             (bool_int enabled) s of
        (Inl e, s1) \<Rightarrow> (Inl e, s1)
      | (Inr u, s1) \<Rightarrow> (Inr True, s1))"

text \<open>
  The two branches of \<^verbatim>\<open>OPB::ISNewSwitch\<close> that switch the DC bank (property
  \<^verbatim>\<open>OnSP\<close>, count \<^verbatim>\<open>numOn\<close>) and the relay (property \<^verbatim>\<open>RelaySP\<close>). Each sends the
  set command to its index, reads the cache entry back with \<^verbatim>\<open>std::stoi\<close> and sets the
  property's state to OK when it agrees with the request and to ALERT otherwise.
\<close>

definition switch_and_check :: "int \<Rightarrow> bool \<Rightarrow> 'f opb \<Rightarrow> (error + IPState) \<times> 'f opb" where
  "switch_and_check i enabled s =
     (case SetSwitchUSB (to_short i) (bool_int enabled) s of
        (Inl e, s1) \<Rightarrow> (Inl e, s1)
      | (Inr u, s1) \<Rightarrow>
          if \<not> inside (state s1) i then (Inl Undefined, s1)
          else (case stoi (state s1 ! nat i) of
                  Inl e \<Rightarrow> (Inl e, s1)
                | Inr n \<Rightarrow> (Inr (if (n \<noteq> 0) = enabled then IPS_OK else IPS_ALERT), s1)))"

definition ISNewSwitch_OnSP :: "bool \<Rightarrow> 'f opb \<Rightarrow> (error + IPState) \<times> 'f opb" where
  "ISNewSwitch_OnSP enabled s = switch_and_check (numDC s + numPWM s) enabled s"

definition ISNewSwitch_RelaySP :: "bool \<Rightarrow> 'f opb \<Rightarrow> (error + IPState) \<times> 'f opb" where
  "ISNewSwitch_RelaySP enabled s = switch_and_check (numDC s + numPWM s + numOn s) enabled s"

section \<open>Responses and a test bench\<close>

text \<open>
  A response of the firmware: \<open>#\<close>, the tag, the index, a colon, the value and the
  terminator. \<open>G_response\<close> is the one that answers \<open>G\<close> and \<open>S\<close>. \<open>left_over\<close>
  is what a command function finds behind the value once it has dropped the last
  character of what it read: nothing when the read stopped cleanly at the terminator, and
  otherwise the terminator and the bytes from behind the read buffer without the last of
  them. \<open>stripped\<close> is a response as the functions hold it in \<^verbatim>\<open>buf\<close>, without the
  leading \<open>#\<close>.
\<close>

definition response :: "char \<Rightarrow> int \<Rightarrow> string \<Rightarrow> string" where
  "response tag i v = CHR ''#'' # tag # to_string i @ '':'' @ v @ '';''"

abbreviation G_response :: "int \<Rightarrow> string \<Rightarrow> string" where
  "G_response \<equiv> response CHR ''G''"

definition left_over :: "string \<Rightarrow> string" where
  "left_over behind = butlast (CHR '';'' # takeWhile (\<lambda>c. c \<noteq> CHR 0x00) behind)"

definition stripped :: "char \<Rightarrow> int \<Rightarrow> string \<Rightarrow> string" where
  "stripped tag j w = tag # to_string j @ CHR '':'' # w"

abbreviation G_buf :: "int \<Rightarrow> string \<Rightarrow> string" where
  "G_buf \<equiv> stripped CHR ''G''"

text \<open>The four caches of the driver object.\<close>

definition caches :: "'f opb \<Rightarrow> string list \<times> string list \<times> bool list \<times> 'f list" where
  "caches s = (state s, name_switch s, Reverse s, Limit s)"

text \<open>
  A driver object for the standard hardware (7 DC outputs, 3 dew heaters, 1 relay, 1 DC
  bank, 7 USB ports) with every cache entry \<open>0\<close>, both master toggles on and a silent
  line.
\<close>

definition box0 :: "unit opb" where
  "box0 = \<lparr>state = replicate 100 ''0'', name_switch = replicate 100 [],
      Reverse = replicate 5 False, Limit = replicate 6 (),
      numDC = 7, numPWM = 3, numRelay = 1, numOn = 1, numUSB = 7,
      Alldc = True, Allpwm = True, rx = [], wr = [], tx = [], logs = []\<rparr>"

text \<open>
  A box with one DC output and nothing else, in the middle of whose poll sweep one read
  times out.
\<close>

definition sweep_input :: "unit opb" where
  "sweep_input =
     box0\<lparr>numDC := 1, numPWM := 0, numRelay := 0, numOn := 0, numUSB := 0,
          rx := [Rd_ok ''#G0:1;'' ''x'', Rd_error ''Timeout error'',
                 Rd_ok ''#G2:12.00;'' ''x'', Rd_ok ''#G3:2.50;'' ''x'',
                 Rd_ok ''#G4:0;'' ''x'', Rd_ok ''#G5:11.90;'' ''x'',
                 Rd_ok ''#G6:1.20;'' ''x'']\<rparr>"

text \<open>The packet of a set command with a boolean value.\<close>

definition S_packet :: "int \<Rightarrow> bool \<Rightarrow> string" where
  "S_packet i enabled = ''# S '' @ to_string i @ '' '' @ to_string (bool_int enabled) @ ''\<newline>''"

text \<open>The response to \<open>Z\<close>: the five counts as a comma list.\<close>

definition Z_response :: "int \<Rightarrow> int \<Rightarrow> int \<Rightarrow> int \<Rightarrow> int \<Rightarrow> string" where
  "Z_response dc pwm relay bank usb =
     ''#Z:'' @ to_string dc @ '','' @ to_string pwm @ '','' @ to_string relay @ '',''
       @ to_string bank @ '','' @ to_string usb @ '';''"

text \<open>The packet of the read command for one index.\<close>

definition G_packet :: "int \<Rightarrow> string" where
  "G_packet i = ''# G '' @ to_string i @ ''\<newline>''"

text \<open>
  A box that does not know its topology yet and is about to read \<open>#Z:7,3,1,1,7;\<close>,
  and the standard box with the 45 responses of one poll sweep on the line.
\<close>

definition discovery_input :: "unit opb" where
  "discovery_input =
     box0\<lparr>numDC := 0, numPWM := 0, numRelay := 0, numOn := 0, numUSB := 0,
          rx := [Rd_ok ''#Z:7,3,1,1,7;'' []]\<rparr>"

definition poll_input :: "unit opb" where
  "poll_input = box0\<lparr>rx := map (\<lambda>j. Rd_ok (G_response (int j) ''0'') []) [0..<45]\<rparr>"

section \<open>Facts about the library operations\<close>

lemma digit_char_is_digit: "d < 10 \<Longrightarrow> is_digit (digit_char d)"
  by (simp add: is_digit_def digit_char_def)

lemma digit_val_digit_char: "d < 10 \<Longrightarrow> digit_val (digit_char d) = int d"
  by (simp add: digit_val_def digit_char_def)

lemma decimal_digits: "c \<in> set (decimal n) \<Longrightarrow> is_digit c"
proof (induction n rule: decimal.induct)
  case (1 n)
  show ?case
  proof (cases "n < 10")
    case True
    with "1.prems" show ?thesis
      by (simp add: decimal.simps [of n] digit_char_is_digit)
  next
    case False
    with "1.prems" "1.IH" show ?thesis
      by (auto simp add: decimal.simps [of n] digit_char_is_digit)
  qed
qed

lemma decimal_not_Nil: "decimal n \<noteq> []"
  by (subst decimal.simps) simp

lemma decimal_length: "0 < k \<Longrightarrow> n < 10 ^ k \<Longrightarrow> length (decimal n) \<le> k"
proof (induction n arbitrary: k rule: decimal.induct)
  case (1 n)
  show ?case
  proof (cases "n < 10")
    case True
    with "1.prems" show ?thesis
      by (simp add: decimal.simps [of n] Suc_leI)
  next
    case False
    obtain j where k: "k = Suc j"
      using "1.prems"(1) by (cases k) auto
    have "j \<noteq> 0"
      using False "1.prems"(2) k by (cases j) auto
    moreover have "n div 10 < 10 ^ j"
      using "1.prems"(2) k by (simp add: less_mult_imp_div_less mult.commute)
    ultimately have "length (decimal (n div 10)) \<le> j"
      using "1.IH" [of j] False by simp
    with False k show ?thesis
      by (simp add: decimal.simps [of n])
  qed
qed

lemma digits_value_snoc: "digits_value (ds @ [c]) = 10 * digits_value ds + digit_val c"
  by (simp add: digits_value_def)

lemma digits_value_decimal: "digits_value (decimal n) = int n"
proof (induction n rule: decimal.induct)
  case (1 n)
  show ?case
  proof (cases "n < 10")
    case True
    then show ?thesis
      by (simp add: decimal.simps [of n] digits_value_def digit_val_digit_char)
  next
    case False
    have "int n = 10 * int (n div 10) + int (n mod 10)"
      by (metis mult_div_mod_eq of_nat_add of_nat_mult of_nat_numeral)
    with False "1.IH" show ?thesis
      by (simp add: decimal.simps [of n] digits_value_snoc digit_val_digit_char)
  qed
qed

lemma is_digit_not_space: "is_digit c \<Longrightarrow> \<not> is_space c"
  by (auto simp add: is_digit_def is_space_def)

lemma is_digit_not_sign: "is_digit c \<Longrightarrow> c \<noteq> CHR ''-'' \<and> c \<noteq> CHR ''+''"
  by (auto simp add: is_digit_def)

lemma takeWhile_digits:
  assumes "\<not> is_digit (at0 rest)"
  shows "takeWhile is_digit (decimal n @ rest) = decimal n"
proof -
  have "takeWhile is_digit rest = []"
    using assms by (cases rest) (auto simp add: at0_def)
  then show ?thesis
    by (simp add: decimal_digits)
qed

lemma stoi_decimal:
  assumes "\<not> is_digit (at0 rest)" and "int n \<le> 2147483647"
  shows "stoi (decimal n @ rest) = Inr (int n)"
proof -
  obtain c cs where d: "decimal n = c # cs"
    using decimal_not_Nil [of n] by (cases "decimal n") auto
  have c: "is_digit c"
    using decimal_digits [of c n] d by simp
  have "dropWhile is_space (decimal n @ rest) = decimal n @ rest"
    using c d by (simp add: is_digit_not_space)
  moreover have "strip_sign (decimal n @ rest) = (False, decimal n @ rest)"
    using c d is_digit_not_sign [of c] by (simp add: strip_sign_def)
  ultimately show ?thesis
    using assms(2) takeWhile_digits [OF assms(1), of n]
    by (simp add: stoi_def decimal_not_Nil digits_value_decimal)
qed

lemma stoi_to_string:
  assumes "\<not> is_digit (at0 rest)"
    and "- 2147483648 \<le> i" and "i \<le> 2147483647"
  shows "stoi (to_string i @ rest) = Inr i"
proof (cases "i < 0")
  case False
  then show ?thesis
    using assms stoi_decimal [of rest "nat i"] by (simp add: to_string_def)
next
  case True
  have "takeWhile is_digit (decimal (nat (- i)) @ rest) = decimal (nat (- i))"
    by (rule takeWhile_digits [OF assms(1)])
  with True assms show ?thesis
    by (simp add: to_string_def stoi_def is_space_def strip_sign_def
        decimal_not_Nil digits_value_decimal)
qed

lemma to_string_not_Nil: "to_string i \<noteq> []"
  by (simp add: to_string_def decimal_not_Nil)

lemma to_string_chars: "c \<in> set (to_string i) \<Longrightarrow> c = CHR ''-'' \<or> is_digit c"
  by (auto simp add: to_string_def decimal_digits split: if_splits)

lemma at0_to_string: "at0 (to_string i) = CHR ''-'' \<or> is_digit (at0 (to_string i))"
proof -
  obtain c cs where d: "to_string i = c # cs"
    using to_string_not_Nil [of i] by (cases "to_string i") auto
  then have "c \<in> set (to_string i)" by simp
  then show ?thesis
    using d to_string_chars [of c i] by (simp add: at0_def)
qed

lemma at0_append: "xs \<noteq> [] \<Longrightarrow> at0 (xs @ ys) = at0 xs"
  by (cases xs) (simp_all add: at0_def)

lemma to_string_length:
  assumes "0 \<le> i" and "i < 100"
  shows "length (to_string i) \<le> 2"
proof -
  have "nat i < 10 ^ 2" using assms by simp
  then have "length (decimal (nat i)) \<le> 2"
    by (rule decimal_length [rotated]) simp
  with assms show ?thesis by (simp add: to_string_def)
qed

lemma to_string_no_colon: "CHR '':'' \<notin> set (to_string i)"
  using to_string_chars [of "CHR '':''" i] by (auto simp add: is_digit_def)

lemma to_string_no_comma: "CHR '','' \<notin> set (to_string i)"
  using to_string_chars [of "CHR '',''" i] by (auto simp add: is_digit_def)

lemma to_string_no_semicolon: "CHR '';'' \<notin> set (to_string i)"
  using to_string_chars [of "CHR '';''" i] by (auto simp add: is_digit_def)

lemma to_string_no_NUL: "CHR 0x00 \<notin> set (to_string i)"
  using to_string_chars [of "CHR 0x00" i] by (auto simp add: is_digit_def)

lemma to_short_id: "- 32768 \<le> x \<Longrightarrow> x \<le> 32767 \<Longrightarrow> to_short x = x"
  by (simp add: to_short_def)

lemma str_find_ge: "- 1 \<le> str_find xs c"
  by (induction xs) (auto simp add: Let_def)

lemma str_find_append:
  "c \<notin> set xs \<Longrightarrow> str_find (xs @ c # ys) c = int (length xs)"
  by (induction xs) (auto simp add: Let_def)

lemma str_find_absent: "c \<notin> set xs \<Longrightarrow> str_find xs c = - 1"
  by (induction xs) (auto simp add: Let_def)

lemma str_find_neg: "(str_find xs c < 0) = (str_find xs c = - 1)"
  using str_find_ge [of xs c] by auto

lemma str_find_append_absent:
  "c \<notin> set xs \<Longrightarrow>
     str_find (xs @ ys) c = (if str_find ys c < 0 then - 1 else int (length xs) + str_find ys c)"
proof (induction xs)
  case Nil
  show ?case by (simp add: str_find_neg)
next
  case (Cons x xs)
  have "- 1 \<le> str_find ys c" by (rule str_find_ge)
  with Cons show ?case
    by (auto simp add: Let_def)
qed

lemma str_find_mem: "(str_find xs c = - 1) = (c \<notin> set xs)"
proof (induction xs)
  case Nil
  show ?case by simp
next
  case (Cons x xs)
  have "- 1 \<le> str_find xs c" by (rule str_find_ge)
  with Cons show ?case
    by (auto simp add: Let_def)
qed

lemma str_find_last_of_append:
  "c \<notin> set ys \<Longrightarrow> str_find_last_of (xs @ c # ys) c = int (length xs)"
  by (simp add: str_find_last_of_def str_find_append)

lemma str_find_last_of_absent: "c \<notin> set xs \<Longrightarrow> str_find_last_of xs c = - 1"
  by (simp add: str_find_last_of_def str_find_absent)

lemma erase_last_butlast: "xs \<noteq> [] \<Longrightarrow> erase_last xs = Inr (butlast xs)"
  by (simp add: erase_last_def erase_from_def butlast_conv_take nat_diff_distrib')

text \<open>Reading a frame that starts with \<open>#\<close>.\<close>

lemma ReceiveTerminated_frame:
  assumes "rx s = Rd_ok (CHR ''#'' # body) behind # rest"
    and "length body < 100" and "CHR 0x00 \<notin> set body"
  shows "ReceiveTerminated s =
           (Inr (CHR ''#'' # body @ takeWhile (\<lambda>c. c \<noteq> CHR 0x00) behind), s\<lparr>rx := rest\<rparr>)"
proof -
  have "takeWhile (\<lambda>c. c \<noteq> CHR 0x00) (body @ behind)
          = body @ takeWhile (\<lambda>c. c \<noteq> CHR 0x00) behind"
    using assms(3) by (intro takeWhile_append2) auto
  then show ?thesis
    using assms(1,2)
    by (simp add: ReceiveTerminated_def tty_read_section_def substr_def)
qed

lemma ReceiveTerminated_failed:
  assumes "rx s = Rd_error msg # rest"
  shows "ReceiveTerminated s = (Inr [], LOG_ERROR (''Serial read error: '' @ msg) (s\<lparr>rx := rest\<rparr>))"
  using assms by (simp add: ReceiveTerminated_def tty_read_section_def)

text \<open>The index of a response \<open>tag index : payload\<close>.\<close>

lemma frame_colon:
  assumes "tag \<noteq> CHR '':''"
  shows "str_find (tag # to_string i @ CHR '':'' # w) CHR '':'' = 1 + int (length (to_string i))"
proof -
  have "CHR '':'' \<notin> set (tag # to_string i)"
    using assms to_string_no_colon [of i] by auto
  then have "str_find ((tag # to_string i) @ CHR '':'' # w) CHR '':'' = int (length (tag # to_string i))"
    by (rule str_find_append)
  then show ?thesis by simp
qed

lemma response_index_frame:
  assumes "tag \<noteq> CHR '':''" and "- 32768 \<le> i" and "i \<le> 32767"
  shows "response_index (tag # to_string i @ CHR '':'' # w) = Inr i"
proof -
  have "stoi (to_string i @ []) = Inr i"
    using assms(2,3) by (intro stoi_to_string) (simp_all add: at0_def is_digit_def)
  then show ?thesis
    using assms
    by (simp add: response_index_def frame_colon substr_def to_short_id del: str_find.simps)
qed

lemma frame_payload:
  assumes "tag \<noteq> CHR '':''"
  shows "substr (tag # to_string i @ CHR '':'' # w)
           (str_find (tag # to_string i @ CHR '':'' # w) CHR '':'' + 1) (- 1) = Inr w"
proof -
  have "nat (2 + int (length (to_string i))) = Suc (Suc (length (to_string i)))"
    by simp
  then show ?thesis
    using assms by (simp add: frame_colon substr_def del: str_find.simps)
qed

text \<open>The state fields a transmission leaves alone.\<close>

lemma write_packet_fields:
  "state (snd (write_packet p s)) = state s"
  "name_switch (snd (write_packet p s)) = name_switch s"
  "Reverse (snd (write_packet p s)) = Reverse s"
  "Limit (snd (write_packet p s)) = Limit s"
  "rx (snd (write_packet p s)) = rx s"
  "numDC (snd (write_packet p s)) = numDC s"
  "numPWM (snd (write_packet p s)) = numPWM s"
  "numOn (snd (write_packet p s)) = numOn s"
  "numRelay (snd (write_packet p s)) = numRelay s"
  "numUSB (snd (write_packet p s)) = numUSB s"
  by (simp_all add: write_packet_def tty_write_string_def LOG_ERROR_def
      split: list.split option.split)

lemma Transmit_int_fields:
  "state (snd (Transmit_int c i v s)) = state s"
  "rx (snd (Transmit_int c i v s)) = rx s"
  by (simp_all add: Transmit_int_def Let_def write_packet_fields LOG_INFO_def)

lemma Transmit_fields:
  "state (snd (Transmit c i s)) = state s"
  "rx (snd (Transmit c i s)) = rx s"
  by (simp_all add: Transmit_def write_packet_fields)

lemma left_over_at0: "at0 (left_over behind) = CHR 0x00 \<or> at0 (left_over behind) = CHR '';''"
  by (cases "takeWhile (\<lambda>c. c \<noteq> CHR 0x00) behind") (simp_all add: left_over_def at0_def)

lemma left_over_not_digit: "\<not> is_digit (at0 (left_over behind))"
  using left_over_at0 [of behind] by (auto simp add: is_digit_def)

text \<open>What the command functions hold in \<open>buf\<close> after reading a \<open>G\<close> response.\<close>

lemma response_received:
  assumes "rx s = Rd_ok (response tag j v) behind # rest"
    and "length (response tag j v) \<le> 100" and "CHR 0x00 \<notin> set v"
    and "tag \<noteq> CHR 0x00"
  shows "ReceiveTerminated s =
           (Inr (CHR ''#'' # (tag # to_string j @ CHR '':'' # v @ '';'')
                   @ takeWhile (\<lambda>c. c \<noteq> CHR 0x00) behind), s\<lparr>rx := rest\<rparr>)"
proof -
  have a: "CHR 0x00 \<notin> set (tag # to_string j @ CHR '':'' # v @ '';'')"
    using assms(3,4) to_string_no_NUL [of j] by auto
  have b: "length (tag # to_string j @ CHR '':'' # v @ '';'') < 100"
    using assms(2) by (simp add: response_def)
  have c: "rx s = Rd_ok (CHR ''#'' # (tag # to_string j @ CHR '':'' # v @ '';'')) behind # rest"
    using assms(1) by (simp add: response_def)
  show ?thesis
    by (rule ReceiveTerminated_frame [OF c b a])
qed

lemmas G_response_received = response_received [where tag = "CHR ''G''", simplified]

lemma response_stripped:
  "erase_last (drop 1 (CHR ''#'' # (tag # to_string j @ CHR '':'' # v @ '';'')
                   @ takeWhile (\<lambda>c. c \<noteq> CHR 0x00) behind))
     = Inr (tag # to_string j @ CHR '':'' # (v @ left_over behind))"
  by (simp add: erase_last_butlast left_over_def butlast_append)

lemmas G_response_stripped = response_stripped [where tag = "CHR ''G''"]

lemma SetSwitchUSB_recv_G:
  assumes "rx s = Rd_ok (G_response j v) behind # rest"
    and "length (G_response j v) \<le> 100" and "CHR 0x00 \<notin> set v"
    and "- 32768 \<le> j" and "j \<le> 32767"
  shows "SetSwitchUSB_recv i prev s =
           (if j = i \<and> at0 (state s ! nat i) \<noteq> at0 (v @ left_over behind)
            then (Inr (), LOG_INFO not_acknowledged (s\<lparr>rx := rest, state := (state s)[nat i := prev]\<rparr>))
            else (Inr (), s\<lparr>rx := rest\<rparr>))"
proof -
  define buf where "buf = CHR ''G'' # to_string j @ CHR '':'' # (v @ left_over behind)"
  have idx: "response_index buf = Inr j"
    unfolding buf_def using assms(4,5) by (intro response_index_frame) simp_all
  have val: "substr buf (str_find buf CHR '':'' + 1) (- 1) = Inr (v @ left_over behind)"
    unfolding buf_def by (intro frame_payload) simp
  have tag: "at0 buf = CHR ''G''"
    by (simp add: buf_def at0_def)
  have "SetSwitchUSB_recv i prev s =
          (case erase_last (drop 1 (CHR ''#'' # (CHR ''G'' # to_string j @ CHR '':'' # v @ '';'')
                   @ takeWhile (\<lambda>c. c \<noteq> CHR 0x00) behind)) of
             Inl e \<Rightarrow> (Inl e, s\<lparr>rx := rest\<rparr>)
           | Inr buf \<Rightarrow>
               (case response_index buf of
                  Inl e \<Rightarrow> (Inl e, s\<lparr>rx := rest\<rparr>)
                | Inr switchN \<Rightarrow>
                    if at0 buf = CHR ''E'' then (Inr (), LOG_INFO (error_message buf) (s\<lparr>rx := rest\<rparr>))
                    else if at0 buf = CHR ''G'' \<and> switchN = i then
                      (case substr buf (str_find buf CHR '':'' + 1) (- 1) of
                         Inl e \<Rightarrow> (Inl e, s\<lparr>rx := rest\<rparr>)
                       | Inr val \<Rightarrow>
                           if at0 (state (s\<lparr>rx := rest\<rparr>) ! nat i) = at0 val then (Inr (), s\<lparr>rx := rest\<rparr>)
                           else (Inr (),
                                 LOG_INFO not_acknowledged
                                   (s\<lparr>rx := rest\<rparr>\<lparr>state := (state (s\<lparr>rx := rest\<rparr>))[nat i := prev]\<rparr>)))
                    else (Inr (), s\<lparr>rx := rest\<rparr>)))"
    unfolding SetSwitchUSB_recv_def G_response_received [OF assms(1-3)] by simp
  also have "\<dots> = (if j = i \<and> at0 (state s ! nat i) \<noteq> at0 (v @ left_over behind)
            then (Inr (), LOG_INFO not_acknowledged (s\<lparr>rx := rest, state := (state s)[nat i := prev]\<rparr>))
            else (Inr (), s\<lparr>rx := rest\<rparr>))"
    unfolding G_response_stripped buf_def [symmetric]
    by (simp add: idx val tag)
  finally show ?thesis .
qed

lemma Transmit_int_state_update:
  "(snd (Transmit_int c i v s))\<lparr>state := state s\<rparr> = snd (Transmit_int c i v s)"
proof -
  have "(snd (Transmit_int c i v s))\<lparr>state := state (snd (Transmit_int c i v s))\<rparr>
          = snd (Transmit_int c i v s)"
    by simp
  then show ?thesis
    by (simp only: Transmit_int_fields)
qed

lemma SetSwitchUSB_send_inside:
  assumes "inside (state s) i"
  shows "SetSwitchUSB_send i v s =
           (Inr (state s ! nat i),
            (snd (Transmit_int CHR ''S'' i v s))\<lparr>state := (state s)[nat i := to_string v]\<rparr>)"
  using assms by (simp add: SetSwitchUSB_send_def Let_def Transmit_int_fields)

lemma str_find_takeWhile:
  "c \<in> set xs \<Longrightarrow> take (nat (str_find xs c)) xs = takeWhile (\<lambda>x. x \<noteq> c) xs"
proof (induction xs)
  case Nil
  then show ?case by simp
next
  case (Cons x xs)
  show ?case
  proof (cases "x = c")
    case True
    then show ?thesis by simp
  next
    case False
    with Cons.prems have mem: "c \<in> set xs" by simp
    then have "str_find xs c \<noteq> - 1" by (simp add: str_find_mem)
    with str_find_ge [of xs c] have "0 \<le> str_find xs c" by simp
    then have "nat (str_find xs c + 1) = Suc (nat (str_find xs c))" by simp
    with False Cons.IH [OF mem] \<open>0 \<le> str_find xs c\<close> show ?thesis
      by (simp add: Let_def)
  qed
qed

text \<open>The normal form of a stripped response.\<close>

lemma stripped_facts:
  assumes "- 32768 \<le> j" and "j \<le> 32767" and "tag \<noteq> CHR '':''"
  shows "response_index (stripped tag j w) = Inr j"
    and "substr (stripped tag j w) (str_find (stripped tag j w) CHR '':'' + 1) (- 1) = Inr w"
    and "at0 (stripped tag j w) = tag"
    and "str_find (stripped tag j w) CHR '':'' = 1 + int (length (to_string j))"
proof -
  show "response_index (stripped tag j w) = Inr j"
    unfolding stripped_def using assms by (intro response_index_frame) simp_all
  show "substr (stripped tag j w) (str_find (stripped tag j w) CHR '':'' + 1) (- 1) = Inr w"
    unfolding stripped_def using assms(3) by (intro frame_payload) simp
  show "at0 (stripped tag j w) = tag"
    by (simp add: stripped_def at0_def)
  show "str_find (stripped tag j w) CHR '':'' = 1 + int (length (to_string j))"
    unfolding stripped_def using assms(3) by (intro frame_colon) simp
qed

lemmas G_buf_facts = stripped_facts [where tag = "CHR ''G''", simplified]

lemma response_buf:
  assumes "rx s = Rd_ok (response tag j v) behind # rest"
    and "length (response tag j v) \<le> 100" and "CHR 0x00 \<notin> set v"
    and "tag \<noteq> CHR 0x00"
  shows "ReceiveTerminated s =
           (Inr (CHR ''#'' # stripped tag j (v @ CHR '';'' # takeWhile (\<lambda>c. c \<noteq> CHR 0x00) behind)),
            s\<lparr>rx := rest\<rparr>)"
    and "erase_last (stripped tag j (v @ CHR '';'' # takeWhile (\<lambda>c. c \<noteq> CHR 0x00) behind))
           = Inr (stripped tag j (v @ left_over behind))"
  using response_received [OF assms] response_stripped [of tag j v behind]
  by (simp_all add: stripped_def)

lemmas G_response_buf = response_buf [where tag = "CHR ''G''", simplified]

lemma SetSwitchValueUSB_recv_G:
  assumes "rx s = Rd_ok (G_response j v) behind # rest"
    and "length (G_response j v) \<le> 100" and "CHR 0x00 \<notin> set v"
    and "- 32768 \<le> j" and "j \<le> 32767"
    and "stoi (state s ! nat i) = Inr a" and "stoi (v @ left_over behind) = Inr b"
  shows "SetSwitchValueUSB_recv i prev s =
           (if j = i \<and> a \<noteq> b
            then (Inr (), LOG_INFO not_acknowledged (s\<lparr>rx := rest, state := (state s)[nat i := prev]\<rparr>))
            else (Inr (), s\<lparr>rx := rest\<rparr>))"
proof -
  define buf where "buf = G_buf j (v @ left_over behind)"
  note buf = G_buf_facts [OF assms(4,5), of "v @ left_over behind", folded buf_def]
  note got = G_response_buf [OF assms(1-3), folded buf_def]
  show ?thesis
    using assms(6,7)
    by (simp add: SetSwitchValueUSB_recv_def got buf(1-3))
qed


lemma GetSwitchUSB_same:
  assumes "rx s = Rd_ok (G_response i v) behind # rest"
    and "length (G_response i v) \<le> 100" and "CHR 0x00 \<notin> set v"
    and "inside (state s) i" and "i \<le> 32767"
  shows "GetSwitchUSB i s =
           (Inr (),
            if CHR '';'' \<in> set (v @ left_over behind)
            then (snd (Transmit CHR ''G'' i s))
                   \<lparr>rx := rest,
                    state := (state s)[nat i := takeWhile (\<lambda>c. c \<noteq> CHR '';'') (v @ left_over behind)]\<rparr>
            else (snd (Transmit CHR ''G'' i s))\<lparr>rx := rest\<rparr>)"
proof -
  define s1 where "s1 = snd (Transmit CHR ''G'' i s)"
  define w where "w = v @ left_over behind"
  define buf where "buf = G_buf i w"
  have range: "- 32768 \<le> i" "i \<le> 32767"
    using assms(4,5) by (simp_all add: inside_def)
  note buf = G_buf_facts [OF range, of w, folded buf_def]
  have rx1: "rx s1 = Rd_ok (G_response i v) behind # rest"
    using assms(1) by (simp add: s1_def Transmit_fields)
  note got = G_response_buf [OF rx1 assms(2,3), folded w_def, folded buf_def]
  have st1: "state s1 = state s"
    by (simp add: s1_def Transmit_fields)
  have semi: "str_find buf CHR '';'' =
                (if CHR '';'' \<in> set w then 2 + int (length (to_string i)) + str_find w CHR '';'' else - 1)"
  proof (cases "CHR '';'' \<in> set w")
    case False
    then have "CHR '';'' \<notin> set buf"
      using to_string_no_semicolon [of i] by (simp add: stripped_def buf_def)
    with False show ?thesis by (simp add: str_find_mem)
  next
    case True
    then have "str_find w CHR '';'' \<noteq> - 1" by (simp add: str_find_mem)
    moreover have "CHR '';'' \<notin> set (CHR ''G'' # to_string i @ [CHR '':''])"
      using to_string_no_semicolon [of i] by simp
    then have "str_find ((CHR ''G'' # to_string i @ [CHR '':'']) @ w) CHR '';'' =
        (if str_find w CHR '';'' < 0 then - 1
         else int (length (CHR ''G'' # to_string i @ [CHR '':''])) + str_find w CHR '';'')"
      by (rule str_find_append_absent)
    ultimately show ?thesis
      using True str_find_ge [of w "CHR '';''"] by (simp add: stripped_def buf_def)
  qed
  have skip: "GetSwitchUSB i s = (Inr (), s1\<lparr>rx := rest\<rparr>)" if "CHR '';'' \<notin> set w"
    using that semi
    by (simp add: GetSwitchUSB_def s1_def [symmetric] got buf(1-3) Let_def)
  have store: "GetSwitchUSB i s =
      (Inr (), s1\<lparr>rx := rest, state := (state s)[nat i := takeWhile (\<lambda>c. c \<noteq> CHR '';'') w]\<rparr>)"
    if mem: "CHR '';'' \<in> set w"
  proof -
    have pos: "0 \<le> str_find w CHR '';''"
      using mem str_find_ge [of w "CHR '';''"] str_find_mem [of w "CHR '';''"] by simp
    have le: "str_find w CHR '';'' \<le> int (length w)"
    proof (rule ccontr)
      assume "\<not> str_find w CHR '';'' \<le> int (length w)"
      then have "take (nat (str_find w CHR '';'')) w = w" by simp
      then have "takeWhile (\<lambda>c. c \<noteq> CHR '';'') w = w"
        using str_find_takeWhile [OF mem] by simp
      then have "CHR '';'' \<notin> set w"
        by (metis (mono_tags, lifting) set_takeWhileD)
      with mem show False by simp
    qed
    have kept: "erase_from buf (2 + int (length (to_string i)) + str_find w CHR '';'')
                  = Inr (CHR ''G'' # to_string i @ CHR '':'' # takeWhile (\<lambda>c. c \<noteq> CHR '';'') w)"
    proof -
      have "nat (2 + int (length (to_string i)) + str_find w CHR '';'')
              = Suc (length (to_string i) + Suc (nat (str_find w CHR '';'')))"
        using pos by simp
      then show ?thesis
        using pos le str_find_takeWhile [OF mem]
        by (simp add: erase_from_def stripped_def buf_def)
    qed
    have val: "substr (CHR ''G'' # to_string i @ CHR '':'' # takeWhile (\<lambda>c. c \<noteq> CHR '';'') w)
                 (str_find buf CHR '':'' + 1) (- 1) = Inr (takeWhile (\<lambda>c. c \<noteq> CHR '';'') w)"
    proof -
      have "nat (1 + int (length (to_string i)) + 1) = Suc (Suc (length (to_string i)))"
        by simp
      then show ?thesis
        by (simp add: substr_def buf(4))
    qed
    show ?thesis
      using mem assms(4) semi kept val st1 pos
      by (simp add: GetSwitchUSB_def s1_def [symmetric] got buf(1-3) Let_def)
  qed
  show ?thesis
    using skip store by (auto simp add: s1_def w_def)
qed

lemma to_string_small [simp]:
  "to_string 0 = ''0''" "to_string 1 = ''1''" "to_string 3 = ''3''" "to_string 7 = ''7''"
  by code_simp+

section \<open>Claims about the switch set command\<close>

text \<open>
  Claim C1. Let the cache hold \<open>v0\<close> at index \<open>i\<close>, and let \<^verbatim>\<open>SetSwitchUSB\<close> be
  called for \<open>i\<close> with a new value \<open>v1\<close> whose first character differs from the first
  character of \<open>v0\<close>. When the device answers \<open>#Gi:v0;\<close>, the call returns normally,
  the whole cache is as it was before the call (entry \<open>i\<close> is \<open>v0\<close> again), and the only
  things that happened are one transmission of the \<open>S\<close> packet, the read of that one
  response and the log line that the new state was not acknowledged: the command is not
  sent a second time.
\<close>

theorem set_switch_mismatch_rolls_back:
  assumes "inside (state s) i" and "length (state s) \<le> 100"
    and "state s ! nat i = v0"
    and "rx s = Rd_ok (G_response i v0) behind # rest"
    and "length (G_response i v0) \<le> 100" and "CHR 0x00 \<notin> set v0"
    and "at0 v0 \<noteq> at0 (to_string v1)"
  shows "SetSwitchUSB i v1 s =
           (Inr (), LOG_INFO not_acknowledged ((snd (Transmit_int CHR ''S'' i v1 s))\<lparr>rx := rest\<rparr>))
         \<and> state (snd (SetSwitchUSB i v1 s)) = state s
         \<and> state (snd (SetSwitchUSB i v1 s)) ! nat i = v0"
proof -
  define s1 where "s1 = snd (Transmit_int CHR ''S'' i v1 s)"
  define s2 where "s2 = s1\<lparr>state := (state s)[nat i := to_string v1]\<rparr>"
  have i: "0 \<le> i" "nat i < length (state s)" "i \<le> 32767"
    using assms(1,2) by (auto simp add: inside_def)
  have send: "SetSwitchUSB_send i v1 s = (Inr v0, s2)"
    using SetSwitchUSB_send_inside [OF assms(1), of v1] assms(3) by (simp add: s1_def s2_def)
  have rx2: "rx s2 = Rd_ok (G_response i v0) behind # rest"
    using assms(4) by (simp add: s2_def s1_def Transmit_int_fields)
  have cached: "state s2 ! nat i = to_string v1"
    using i by (simp add: s2_def)
  have differ: "at0 (to_string v1) \<noteq> at0 (v0 @ left_over behind)"
  proof (cases "v0 = []")
    case True
    then show ?thesis
      using left_over_at0 [of behind] at0_to_string [of v1]
      by (auto simp add: is_digit_def)
  next
    case False
    then show ?thesis
      using assms(7) by (simp add: at0_append)
  qed
  have recv: "SetSwitchUSB_recv i v0 s2 =
      (Inr (), LOG_INFO not_acknowledged (s2\<lparr>rx := rest, state := (state s2)[nat i := v0]\<rparr>))"
    using SetSwitchUSB_recv_G [OF rx2 assms(5,6), of i v0] i differ cached by simp
  have same: "(state s)[nat i := v0] = state s"
    using assms(3) by (metis list_update_id)
  have restored: "s2\<lparr>rx := rest, state := (state s2)[nat i := v0]\<rparr> = s1\<lparr>rx := rest\<rparr>"
    by (rule opb.equality) (simp_all add: s2_def s1_def same Transmit_int_fields)
  have whole: "SetSwitchUSB i v1 s = (Inr (), LOG_INFO not_acknowledged (s1\<lparr>rx := rest\<rparr>))"
    by (simp add: SetSwitchUSB_def send recv restored)
  have "state (LOG_INFO not_acknowledged (s1\<lparr>rx := rest\<rparr>)) = state s"
    by (simp add: LOG_INFO_def s1_def Transmit_int_fields)
  with whole assms(3) show ?thesis
    by (simp add: s1_def)
qed

theorem set_switch_mismatch_rolls_back_witness:
  "SetSwitchUSB 3 1 (box0\<lparr>rx := [Rd_ok ''#G3:0;'' []]\<rparr>) =
     (Inr (), LOG_INFO not_acknowledged
        ((snd (Transmit_int CHR ''S'' 3 1 (box0\<lparr>rx := [Rd_ok ''#G3:0;'' []]\<rparr>)))\<lparr>rx := []\<rparr>))
   \<and> state (snd (SetSwitchUSB 3 1 (box0\<lparr>rx := [Rd_ok ''#G3:0;'' []]\<rparr>))) = state box0
   \<and> state (snd (SetSwitchUSB 3 1 (box0\<lparr>rx := [Rd_ok ''#G3:0;'' []]\<rparr>))) ! 3 = ''0''"
proof -
  let ?s = "box0\<lparr>rx := [Rd_ok ''#G3:0;'' []]\<rparr>"
  have h1: "inside (state ?s) 3" by (simp add: box0_def inside_def)
  have h2: "length (state ?s) \<le> 100" by (simp add: box0_def)
  have h3: "state ?s ! nat 3 = ''0''" by (simp add: box0_def)
  have h4: "rx ?s = Rd_ok (G_response 3 ''0'') [] # []" by (simp add: response_def)
  have h5: "length (G_response 3 ''0'') \<le> 100" by (simp add: response_def)
  have h6: "CHR 0x00 \<notin> set ''0''" by simp
  have h7: "at0 ''0'' \<noteq> at0 (to_string 1)" by (simp add: at0_def)
  have e: "state ?s = state box0" by simp
  have n: "nat 3 = 3" by simp
  show ?thesis
    using set_switch_mismatch_rolls_back [OF h1 h2 h3 h4 h5 h6 h7] unfolding e n .
qed

lemma to_string_length_int:
  assumes "- 2147483648 \<le> v" and "v \<le> 2147483647"
  shows "length (to_string v) \<le> 11"
proof -
  have "length (decimal (nat \<bar>v\<bar>)) \<le> 10"
  proof (rule decimal_length)
    show "(0::nat) < 10" by simp
    show "nat \<bar>v\<bar> < 10 ^ 10" using assms by simp
  qed
  then show ?thesis
    by (cases "v < 0") (simp_all add: to_string_def abs_if)
qed

lemma G_response_length:
  assumes "inside (state s) i" and "length (state s) \<le> 100"
    and "- 2147483648 \<le> v" and "v \<le> 2147483647"
  shows "length (G_response i (to_string v)) \<le> 100"
proof -
  have "0 \<le> i" "i < 100" using assms(1,2) by (auto simp add: inside_def)
  then have "length (to_string i) \<le> 2" by (rule to_string_length)
  moreover have "length (to_string v) \<le> 11" using assms(3,4) by (rule to_string_length_int)
  ultimately show ?thesis by (simp add: response_def)
qed

lemma SetSwitchValueUSB_send_inside:
  assumes "inside (state s) i"
  shows "SetSwitchValueUSB_send i v s =
           (Inr (state s ! nat i),
            (snd (Transmit_int CHR ''S'' i v s))\<lparr>state := (state s)[nat i := to_string_double v]\<rparr>)"
  using assms by (simp add: SetSwitchValueUSB_send_def Let_def Transmit_int_fields)

lemma stoi_to_string_double:
  assumes "- 2147483648 \<le> v" and "v \<le> 2147483647"
  shows "stoi (to_string_double v) = Inr v"
  unfolding to_string_double_def using assms
  by (intro stoi_to_string) (simp_all add: at0_def is_digit_def)

lemma left_over_cut: "takeWhile (\<lambda>c. c \<noteq> CHR '';'') (left_over behind) = []"
  by (cases "takeWhile (\<lambda>c. c \<noteq> CHR 0x00) behind") (simp_all add: left_over_def)

lemma GetSwitchUSB_echo:
  assumes "rx t = Rd_ok (G_response i (to_string v)) behind # rest"
    and "inside (state t) i" and "length (state t) \<le> 100"
    and "- 2147483648 \<le> v" and "v \<le> 2147483647"
  shows "fst (GetSwitchUSB i t) = Inr ()"
    and "state (snd (GetSwitchUSB i t)) = state t
           \<or> state (snd (GetSwitchUSB i t)) = (state t)[nat i := to_string v]"
proof -
  have i: "i \<le> 32767"
    using assms(2,3) by (auto simp add: inside_def)
  have len: "length (G_response i (to_string v)) \<le> 100"
    using assms(2-5) by (rule G_response_length)
  have "takeWhile (\<lambda>c. c \<noteq> CHR '';'') (to_string v @ left_over behind)
          = to_string v @ takeWhile (\<lambda>c. c \<noteq> CHR '';'') (left_over behind)"
    using to_string_no_semicolon [of v] by (intro takeWhile_append2) auto
  then have cut: "takeWhile (\<lambda>c. c \<noteq> CHR '';'') (to_string v @ left_over behind) = to_string v"
    by (simp add: left_over_cut)
  note get = GetSwitchUSB_same [OF assms(1) len to_string_no_NUL assms(2) i]
  show "fst (GetSwitchUSB i t) = Inr ()"
    by (simp add: get)
  show "state (snd (GetSwitchUSB i t)) = state t
           \<or> state (snd (GetSwitchUSB i t)) = (state t)[nat i := to_string v]"
    unfolding get cut by (simp add: Transmit_fields)
qed

text \<open>
  Claim C8. When \<^verbatim>\<open>SetSwitchUSB\<close> is called for index \<open>i\<close> with value \<open>v\<close> and the
  device answers \<open>#Gi:v;\<close>, the call returns normally and the cache entry \<open>i\<close> holds
  the text of \<open>v\<close>: the value written before the read stays, and nothing else happened
  than the one transmission, the read and that cache write. A \<^verbatim>\<open>GetSwitchUSB\<close> for
  \<open>i\<close> that follows and is answered by \<open>#Gi:v;\<close> again returns normally and leaves
  the text of \<open>v\<close> in the entry. The same holds for \<^verbatim>\<open>SetSwitchValueUSB\<close>, whose
  cache entry is the text of the double; \<^verbatim>\<open>std::stoi\<close> reads it as \<open>v\<close>, before and
  after the read command.
\<close>

theorem set_switch_acknowledged:
  assumes "inside (state s) i" and "length (state s) \<le> 100"
    and "- 2147483648 \<le> v" and "v \<le> 2147483647"
    and "rx s = Rd_ok (G_response i (to_string v)) behind
                  # Rd_ok (G_response i (to_string v)) behind' # rest"
  shows "SetSwitchUSB i v s =
           (Inr (), (snd (Transmit_int CHR ''S'' i v s))
                      \<lparr>state := (state s)[nat i := to_string v],
                       rx := Rd_ok (G_response i (to_string v)) behind' # rest\<rparr>)
         \<and> state (snd (SetSwitchUSB i v s)) ! nat i = to_string v
         \<and> fst (GetSwitchUSB i (snd (SetSwitchUSB i v s))) = Inr ()
         \<and> state (snd (GetSwitchUSB i (snd (SetSwitchUSB i v s)))) ! nat i = to_string v
         \<and> SetSwitchValueUSB i v s =
           (Inr (), (snd (Transmit_int CHR ''S'' i v s))
                      \<lparr>state := (state s)[nat i := to_string_double v],
                       rx := Rd_ok (G_response i (to_string v)) behind' # rest\<rparr>)
         \<and> state (snd (SetSwitchValueUSB i v s)) ! nat i = to_string_double v
         \<and> stoi (state (snd (SetSwitchValueUSB i v s)) ! nat i) = Inr v
         \<and> fst (GetSwitchUSB i (snd (SetSwitchValueUSB i v s))) = Inr ()
         \<and> stoi (state (snd (GetSwitchUSB i (snd (SetSwitchValueUSB i v s)))) ! nat i) = Inr v"
proof -
  define next_rx where "next_rx = Rd_ok (G_response i (to_string v)) behind' # rest"
  define s1 where "s1 = snd (Transmit_int CHR ''S'' i v s)"
  define s2 where "s2 = s1\<lparr>state := (state s)[nat i := to_string v]\<rparr>"
  define s3 where "s3 = s1\<lparr>state := (state s)[nat i := to_string_double v]\<rparr>"
  have i: "0 \<le> i" "nat i < length (state s)" "- 32768 \<le> i" "i \<le> 32767"
    using assms(1,2) by (auto simp add: inside_def)
  have len: "length (G_response i (to_string v)) \<le> 100"
    using assms(1-4) by (rule G_response_length)
  have nul: "CHR 0x00 \<notin> set (to_string v)"
    by (rule to_string_no_NUL)
  have rx2: "rx s2 = Rd_ok (G_response i (to_string v)) behind # next_rx"
    and rx3: "rx s3 = Rd_ok (G_response i (to_string v)) behind # next_rx"
    using assms(5) by (simp_all add: s2_def s3_def s1_def Transmit_int_fields next_rx_def)
  have same: "at0 (state s2 ! nat i) = at0 (to_string v @ left_over behind)"
    using i by (simp add: s2_def at0_append to_string_not_Nil)
  have set1: "SetSwitchUSB i v s = (Inr (), s2\<lparr>rx := next_rx\<rparr>)"
    using SetSwitchUSB_send_inside [OF assms(1), of v]
      SetSwitchUSB_recv_G [OF rx2 len nul i(3,4), of i "state s ! nat i"] same
    by (simp add: SetSwitchUSB_def s1_def s2_def)
  have cached: "stoi (state s3 ! nat i) = Inr v"
    using i assms(3,4) by (simp add: s3_def stoi_to_string_double)
  have echoed: "stoi (to_string v @ left_over behind) = Inr v"
    using left_over_not_digit assms(3,4) by (rule stoi_to_string)
  have set2: "SetSwitchValueUSB i v s = (Inr (), s3\<lparr>rx := next_rx\<rparr>)"
    using SetSwitchValueUSB_send_inside [OF assms(1), of v]
      SetSwitchValueUSB_recv_G [OF rx3 len nul i(3,4) cached echoed, of "state s ! nat i"]
    by (simp add: SetSwitchValueUSB_def s1_def s3_def)
  have t2: "rx (s2\<lparr>rx := next_rx\<rparr>) = Rd_ok (G_response i (to_string v)) behind' # rest"
    "inside (state (s2\<lparr>rx := next_rx\<rparr>)) i" "length (state (s2\<lparr>rx := next_rx\<rparr>)) \<le> 100"
    and t3: "rx (s3\<lparr>rx := next_rx\<rparr>) = Rd_ok (G_response i (to_string v)) behind' # rest"
    "inside (state (s3\<lparr>rx := next_rx\<rparr>)) i" "length (state (s3\<lparr>rx := next_rx\<rparr>)) \<le> 100"
    using assms(1,2) by (simp_all add: next_rx_def s2_def s3_def inside_def)
  note get2 = GetSwitchUSB_echo [OF t2 assms(3,4)]
  note get3 = GetSwitchUSB_echo [OF t3 assms(3,4)]
  have after2: "state (snd (GetSwitchUSB i (s2\<lparr>rx := next_rx\<rparr>))) ! nat i = to_string v"
    using get2(2) i by (auto simp add: s2_def)
  have after3: "stoi (state (snd (GetSwitchUSB i (s3\<lparr>rx := next_rx\<rparr>))) ! nat i) = Inr v"
    using get3(2) i assms(3,4) stoi_to_string [of "[]" v]
    by (auto simp add: s3_def stoi_to_string_double at0_def is_digit_def)
  show ?thesis
    using i assms(3,4) get2(1) get3(1) after2 after3
    by (simp add: set1 set2 s2_def s3_def s1_def next_rx_def stoi_to_string_double)
qed

theorem set_switch_acknowledged_witness:
  "state (snd (SetSwitchUSB 3 1 (box0\<lparr>rx := [Rd_ok ''#G3:1;'' [], Rd_ok ''#G3:1;'' ''x'']\<rparr>))) ! 3 = ''1''
   \<and> fst (GetSwitchUSB 3 (snd (SetSwitchUSB 3 1
            (box0\<lparr>rx := [Rd_ok ''#G3:1;'' [], Rd_ok ''#G3:1;'' ''x'']\<rparr>)))) = Inr ()
   \<and> state (snd (GetSwitchUSB 3 (snd (SetSwitchUSB 3 1
            (box0\<lparr>rx := [Rd_ok ''#G3:1;'' [], Rd_ok ''#G3:1;'' ''x'']\<rparr>))))) ! 3 = ''1''
   \<and> state (snd (SetSwitchValueUSB 3 1
            (box0\<lparr>rx := [Rd_ok ''#G3:1;'' [], Rd_ok ''#G3:1;'' ''x'']\<rparr>))) ! 3 = ''1.000000''
   \<and> stoi (state (snd (GetSwitchUSB 3 (snd (SetSwitchValueUSB 3 1
            (box0\<lparr>rx := [Rd_ok ''#G3:1;'' [], Rd_ok ''#G3:1;'' ''x'']\<rparr>))))) ! 3) = Inr 1"
proof -
  let ?s = "box0\<lparr>rx := [Rd_ok ''#G3:1;'' [], Rd_ok ''#G3:1;'' ''x'']\<rparr>"
  have h1: "inside (state ?s) 3" by (simp add: box0_def inside_def)
  have h2: "length (state ?s) \<le> 100" by (simp add: box0_def)
  have h3: "- 2147483648 \<le> (1::int)" by simp
  have h4: "(1::int) \<le> 2147483647" by simp
  have h5: "rx ?s = Rd_ok (G_response 3 (to_string 1)) []
                      # Rd_ok (G_response 3 (to_string 1)) ''x'' # []"
    by (simp add: response_def)
  have n: "nat 3 = 3" by simp
  have t: "to_string 1 = ''1''" by simp
  have d: "to_string_double 1 = ''1.000000''" by (simp add: to_string_double_def)
  note r = set_switch_acknowledged [OF h1 h2 h3 h4 h5, unfolded n t d]
  from r show ?thesis by blast
qed

text \<open>
  Claim C4, evaluated on the code. The command is \<^verbatim>\<open>SetSwitchUSB(3, 1)\<close> with the
  cache entry 3 at \<open>0\<close>, and the device answers \<open>#E bad request;\<close>. The index is
  parsed before the tag is looked at, \<^verbatim>\<open>std::stoi\<close> finds no digit in \<open> bad request\<close>
  and throws, so the branch for tag \<open>E\<close> is never reached: the call ends with
  \<^verbatim>\<open>std::invalid_argument\<close>, the only log line is the echo of the packet, and the cache
  entry 3 holds the requested \<open>1\<close>. \<^verbatim>\<open>GetSwitchUSB(3)\<close> throws in the same place.
  \<^verbatim>\<open>GetNum\<close>, which looks at the tag first, does what the claim says: it logs the
  device's error text and changes nothing.
\<close>

theorem device_error_response_throws:
  "fst (SetSwitchUSB 3 1 (box0\<lparr>rx := [Rd_ok ''#E bad request;'' []]\<rparr>)) = Inl Invalid_argument
   \<and> state box0 ! 3 = ''0''
   \<and> state (snd (SetSwitchUSB 3 1 (box0\<lparr>rx := [Rd_ok ''#E bad request;'' []]\<rparr>))) ! 3 = ''1''
   \<and> logs (snd (SetSwitchUSB 3 1 (box0\<lparr>rx := [Rd_ok ''#E bad request;'' []]\<rparr>)))
       = [(INFO, ''# S 3 1\<newline>'')]
   \<and> fst (GetSwitchUSB 3 (box0\<lparr>rx := [Rd_ok ''#E bad request;'' []]\<rparr>)) = Inl Invalid_argument
   \<and> logs (snd (GetSwitchUSB 3 (box0\<lparr>rx := [Rd_ok ''#E bad request;'' []]\<rparr>))) = []
   \<and> fst (GetNum (box0\<lparr>rx := [Rd_ok ''#E bad request;'' []]\<rparr>)) = Inr ()
   \<and> logs (snd (GetNum (box0\<lparr>rx := [Rd_ok ''#E bad request;'' []]\<rparr>)))
       = [(INFO, ''The power box returned error: E bad request;'')]"
  by code_simp

text \<open>
  Claim C3, evaluated on the code. The box has one DC output and nothing else, so a
  sweep polls the seven indices \<open>0\<close> to \<open>6\<close>. The read for index 1 times out.
  \<^verbatim>\<open>ReceiveTerminated\<close> logs it and returns the empty string, on which
  \<^verbatim>\<open>buf.erase(buf.length()-1)\<close> throws \<^verbatim>\<open>std::out_of_range\<close>. The sweep ends there:
  only \<open>G 0\<close> and \<open>G 1\<close> were transmitted, the responses for the indices 2 to 6 are
  still unread and their cache entries are the old ones. A frame whose index is not a
  number (\<open>#Gx:1;\<close>) ends the sweep in the same way, with \<^verbatim>\<open>std::invalid_argument\<close>
  from \<^verbatim>\<open>std::stoi\<close>.
\<close>

theorem failed_read_aborts_sweep:
  "numSwitch sweep_input = 7
   \<and> fst (TimerHit_sweep sweep_input) = Inl Out_of_range
   \<and> tx (snd (TimerHit_sweep sweep_input)) = [''# G 0\<newline>'', ''# G 1\<newline>'']
   \<and> length (rx (snd (TimerHit_sweep sweep_input))) = 5
   \<and> state (snd (TimerHit_sweep sweep_input)) ! 0 = ''1''
   \<and> state (snd (TimerHit_sweep sweep_input)) ! 2 = ''0''
   \<and> fst (TimerHit_sweep (sweep_input\<lparr>rx := (rx sweep_input)[1 := Rd_ok ''#Gx:1;'' ''x'']\<rparr>))
       = Inl Invalid_argument
   \<and> tx (snd (TimerHit_sweep (sweep_input\<lparr>rx := (rx sweep_input)[1 := Rd_ok ''#Gx:1;'' ''x'']\<rparr>)))
       = [''# G 0\<newline>'', ''# G 1\<newline>'']"
  by code_simp

text \<open>What reading and the code behind it leave alone: the packets written.\<close>

lemma ReceiveTerminated_tx: "tx (snd (ReceiveTerminated s)) = tx s"
  by (simp add: ReceiveTerminated_def tty_read_section_def LOG_ERROR_def Let_def
      split: list.split rd.split)

lemma SetSwitchUSB_recv_tx: "tx (snd (SetSwitchUSB_recv i prev s)) = tx s"
proof (cases "ReceiveTerminated s")
  case (Pair r s1)
  then have "tx s1 = tx s"
    using ReceiveTerminated_tx [of s] by simp
  with Pair show ?thesis
    by (simp add: SetSwitchUSB_recv_def LOG_INFO_def split: sum.split)
qed

lemma write_packet_tx: "wr s = [] \<Longrightarrow> tx (snd (write_packet p s)) = tx s @ [p]"
  by (simp add: write_packet_def tty_write_string_def)

lemma Transmit_int_tx:
  "wr s = [] \<Longrightarrow>
     tx (snd (Transmit_int c i v s)) = tx s @ [packet_head c i @ '' '' @ to_string v @ ''\<newline>'']"
  by (simp add: Transmit_int_def Let_def write_packet_tx LOG_INFO_def)

lemma SetSwitchUSB_tx:
  assumes "wr s = []" and "inside (state s) i"
  shows "tx (snd (SetSwitchUSB i (bool_int enabled) s)) = tx s @ [S_packet i enabled]"
proof -
  have "tx (snd (Transmit_int CHR ''S'' i (bool_int enabled) s)) = tx s @ [S_packet i enabled]"
    using Transmit_int_tx [OF assms(1), of "CHR ''S''" i "bool_int enabled"]
    by (simp add: S_packet_def packet_head_def)
  then show ?thesis
    using SetSwitchUSB_send_inside [OF assms(2), of "bool_int enabled"]
    by (simp add: SetSwitchUSB_def SetSwitchUSB_recv_tx)
qed

lemma switch_and_check_tx:
  assumes "wr s = []" and "inside (state s) i" and "i \<le> 32767"
  shows "tx (snd (switch_and_check i enabled s)) = tx s @ [S_packet i enabled]"
proof -
  have short: "to_short i = i"
    using assms(2,3) by (simp add: inside_def to_short_id)
  obtain r s1 where run: "SetSwitchUSB i (bool_int enabled) s = (r, s1)"
    by (cases "SetSwitchUSB i (bool_int enabled) s")
  then have "tx s1 = tx s @ [S_packet i enabled]"
    using SetSwitchUSB_tx [OF assms(1,2), of enabled] by simp
  with run short show ?thesis
    by (simp add: switch_and_check_def split: sum.split)
qed

text \<open>
  Claim C2, as stated, fails on the standard box (7 DC, 3 PWM, 1 relay, 1 bank, 7 USB).
  The claim puts the relay at \<open>numDC+numPWM = 10\<close> and the bank at
  \<open>numDC+numPWM+numRelay = 11\<close>; the driver sends the relay command to index 11 and the
  bank command to index 10.
\<close>

theorem relay_bank_order_counterexample:
  "numDC box0 + numPWM box0 = 10
   \<and> tx (snd (ISNewSwitch_RelaySP True (box0\<lparr>rx := [Rd_ok ''#G11:1;'' []]\<rparr>))) = [''# S 11 1\<newline>'']
   \<and> numDC box0 + numPWM box0 + numRelay box0 = 11
   \<and> tx (snd (ISNewSwitch_OnSP True (box0\<lparr>rx := [Rd_ok ''#G10:1;'' []]\<rparr>))) = [''# S 10 1\<newline>'']"
  by code_simp

text \<open>
  Claim C2, amended. The driver orders the classes DC, PWM, Bank, Relay, USB. For every
  topology whose switches fit the cache, the bank is addressed at index
  \<open>numDC+numPWM\<close>, the relay at \<open>numDC+numPWM+numBank\<close> and USB port \<open>p\<close> at
  \<open>numDC+numPWM+numRelay+numBank+p\<close>: these are the indices in the \<open>S\<close> packets that
  the two switch handlers and \<^verbatim>\<open>SetUSBPort\<close> transmit.
\<close>

theorem switch_index_layout:
  assumes "wr s = []"
    and "0 \<le> numDC s" and "0 \<le> numPWM s" and "0 \<le> numOn s"
    and "0 \<le> numRelay s" and "0 \<le> numUSB s"
    and "total s \<le> int (length (state s))" and "length (state s) \<le> 100"
    and "0 < numOn s" and "0 < numRelay s" and "int port < numUSB s"
  shows "tx (snd (ISNewSwitch_OnSP enabled s)) = tx s @ [S_packet (numDC s + numPWM s) enabled]
         \<and> tx (snd (ISNewSwitch_RelaySP enabled s))
             = tx s @ [S_packet (numDC s + numPWM s + numOn s) enabled]
         \<and> tx (snd (SetUSBPort port enabled s))
             = tx s @ [S_packet (numDC s + numPWM s + numRelay s + numOn s + int port) enabled]"
proof -
  have bank: "inside (state s) (numDC s + numPWM s)" "numDC s + numPWM s \<le> 32767"
    using assms(2-11) by (simp_all add: inside_def total_def)
  have relay: "inside (state s) (numDC s + numPWM s + numOn s)"
    "numDC s + numPWM s + numOn s \<le> 32767"
    using assms(2-11) by (simp_all add: inside_def total_def)
  have usb: "inside (state s) (numDC s + numPWM s + numRelay s + numOn s + int port)"
    "- 32768 \<le> numDC s + numPWM s + numRelay s + numOn s + int port"
    "numDC s + numPWM s + numRelay s + numOn s + int port \<le> 32767"
    using assms(2-11) by (simp_all add: inside_def total_def)
  obtain r s1 where run:
    "SetSwitchUSB (numDC s + numPWM s + numRelay s + numOn s + int port) (bool_int enabled) s = (r, s1)"
    by (cases "SetSwitchUSB (numDC s + numPWM s + numRelay s + numOn s + int port) (bool_int enabled) s")
  then have "tx s1 = tx s @ [S_packet (numDC s + numPWM s + numRelay s + numOn s + int port) enabled]"
    using SetSwitchUSB_tx [OF assms(1) usb(1), of enabled] by simp
  with run have "tx (snd (SetUSBPort port enabled s))
      = tx s @ [S_packet (numDC s + numPWM s + numRelay s + numOn s + int port) enabled]"
    by (simp add: SetUSBPort_def to_short_id [OF usb(2,3)] split: sum.split)
  then show ?thesis
    using switch_and_check_tx [OF assms(1) bank, of enabled]
      switch_and_check_tx [OF assms(1) relay, of enabled]
    by (simp add: ISNewSwitch_OnSP_def ISNewSwitch_RelaySP_def)
qed

theorem switch_index_layout_witness:
  "tx (snd (ISNewSwitch_OnSP True box0)) = [S_packet 10 True]
   \<and> tx (snd (ISNewSwitch_RelaySP True box0)) = [S_packet 11 True]
   \<and> tx (snd (SetUSBPort 2 True box0)) = [S_packet 14 True]"
proof -
  have h1: "wr box0 = []" by (simp add: box0_def)
  have h2: "0 \<le> numDC box0" and h3: "0 \<le> numPWM box0" and h4: "0 \<le> numOn box0"
    and h5: "0 \<le> numRelay box0" and h6: "0 \<le> numUSB box0"
    by (simp_all add: box0_def)
  have h7: "total box0 \<le> int (length (state box0))" by (simp add: box0_def total_def)
  have h8: "length (state box0) \<le> 100" by (simp add: box0_def)
  have h9: "0 < numOn box0" and h10: "0 < numRelay box0" and h11: "int 2 < numUSB box0"
    by (simp_all add: box0_def)
  have e: "numDC box0 = 7" "numPWM box0 = 3" "numOn box0 = 1" "numRelay box0 = 1"
    "tx box0 = []"
    by (simp_all add: box0_def)
  show ?thesis
    using switch_index_layout [OF h1 h2 h3 h4 h5 h6 h7 h8 h9 h10 h11, of True]
    unfolding e by simp
qed

lemma Transmit_float_fields:
  "Limit (snd (Transmit_float ftos c i v s)) = Limit s"
  "rx (snd (Transmit_float ftos c i v s)) = rx s"
  by (simp_all add: Transmit_float_def Let_def write_packet_fields LOG_INFO_def)

lemma Transmit_string_fields:
  "name_switch (snd (Transmit_string c i v s)) = name_switch s"
  "rx (snd (Transmit_string c i v s)) = rx s"
  by (simp_all add: Transmit_string_def write_packet_fields)

lemma Transmit_int_Reverse: "Reverse (snd (Transmit_int c i v s)) = Reverse s"
  by (simp add: Transmit_int_def Let_def write_packet_fields LOG_INFO_def)

text \<open>
  Claim C5, as stated, fails for the polarity and the name command. With the cached
  polarity of class 0 at \<^verbatim>\<open>false\<close>, \<^verbatim>\<open>SetReverseUSB(0, 1)\<close> has transmitted
  \<open>R 0 1\<close> and not yet read the response: the cache still says \<^verbatim>\<open>false\<close>. In the
  same way \<^verbatim>\<open>SetNameUSB(0, "cam")\<close> has transmitted \<open>N 0 cam\<close> and the cached name is
  still empty.
\<close>

theorem no_speculative_write_counterexample:
  "Reverse box0 ! 0 = False
   \<and> tx (SetReverseUSB_send 0 1 box0) = [''# R 0 1\<newline>'']
   \<and> Reverse (SetReverseUSB_send 0 1 box0) ! 0 = False
   \<and> tx (SetNameUSB_send 0 ''cam'' box0) = [''# N 0 cam\<newline>'']
   \<and> name_switch (SetNameUSB_send 0 ''cam'' box0) ! 0 = []"
  by code_simp

text \<open>
  Claim C5, amended. Of the set commands only \<open>S\<close> writes before the response is
  read: at the point where \<^verbatim>\<open>SetSwitchUSB\<close> and \<^verbatim>\<open>SetSwitchValueUSB\<close> are about to
  read (nothing has been taken from the line yet), the state cache entry holds the text
  of the requested value. At the same point of \<^verbatim>\<open>SetNameUSB\<close>, \<^verbatim>\<open>SetReverseUSB\<close>
  and \<^verbatim>\<open>SetLimitsUSB\<close> the name, polarity and limit caches are untouched. (What
  another thread would see is outside this model.)
\<close>

theorem speculative_write_only_for_switch:
  assumes "inside (state s) i"
  shows "state (snd (SetSwitchUSB_send i v s)) ! nat i = to_string v
         \<and> rx (snd (SetSwitchUSB_send i v s)) = rx s
         \<and> state (snd (SetSwitchValueUSB_send i v s)) ! nat i = to_string_double v
         \<and> rx (snd (SetSwitchValueUSB_send i v s)) = rx s
         \<and> name_switch (SetNameUSB_send i name s) = name_switch s
         \<and> rx (SetNameUSB_send i name s) = rx s
         \<and> Reverse (SetReverseUSB_send i v s) = Reverse s
         \<and> rx (SetReverseUSB_send i v s) = rx s
         \<and> Limit (SetLimitsUSB_send ftos i x s) = Limit s
         \<and> rx (SetLimitsUSB_send ftos i x s) = rx s"
proof -
  have "nat i < length (state s)"
    using assms by (auto simp add: inside_def)
  then show ?thesis
    using SetSwitchUSB_send_inside [OF assms, of v] SetSwitchValueUSB_send_inside [OF assms, of v]
    by (simp add: SetNameUSB_send_def SetReverseUSB_send_def SetLimitsUSB_send_def
        Transmit_int_fields Transmit_int_Reverse Transmit_string_fields Transmit_float_fields)
qed

theorem speculative_write_only_for_switch_witness:
  "state (snd (SetSwitchUSB_send 3 1 box0)) ! 3 = ''1''
   \<and> state (snd (SetSwitchValueUSB_send 3 1 box0)) ! 3 = ''1.000000''
   \<and> name_switch (SetNameUSB_send 3 ''cam'' box0) = name_switch box0
   \<and> Reverse (SetReverseUSB_send 3 1 box0) = Reverse box0
   \<and> Limit (SetLimitsUSB_send (\<lambda>u. ''1.500000'') 3 () box0) = Limit box0"
proof -
  have h: "inside (state box0) 3" by (simp add: box0_def inside_def)
  have n: "nat 3 = 3" by simp
  have t: "to_string 1 = ''1''" by simp
  have d: "to_string_double 1 = ''1.000000''" by (simp add: to_string_double_def)
  show ?thesis
    using speculative_write_only_for_switch [OF h, of 1 "''cam''" "\<lambda>u. ''1.500000''" "()"]
    unfolding n t d by simp
qed

text \<open>
  Claim C10. While the master toggle for the DC outputs is off, \<^verbatim>\<open>SetPowerPort\<close>
  answers \<^verbatim>\<open>true\<close> and leaves the driver object exactly as it was: no packet is
  written, no cache entry changes and nothing is logged. The same holds for
  \<^verbatim>\<open>SetDewPort\<close> while the master toggle for the dew heaters is off.
\<close>

theorem master_toggle_off_blocks_port:
  "(\<not> Alldc s \<longrightarrow> SetPowerPort port enabled s = (Inr True, s))
   \<and> (\<not> Allpwm s \<longrightarrow> SetDewPort port enabled dutyCycle s = (Inr True, s))"
  by (simp add: SetPowerPort_def SetDewPort_def)

theorem master_toggle_off_blocks_port_witness:
  "SetPowerPort 2 True (box0\<lparr>Alldc := False, Allpwm := False\<rparr>)
     = (Inr True, box0\<lparr>Alldc := False, Allpwm := False\<rparr>)
   \<and> SetDewPort 2 True 40 (box0\<lparr>Alldc := False, Allpwm := False\<rparr>)
     = (Inr True, box0\<lparr>Alldc := False, Allpwm := False\<rparr>)
   \<and> tx (snd (SetPowerPort 2 True (box0\<lparr>Alldc := False, Allpwm := False\<rparr>))) = []
   \<and> state (snd (SetPowerPort 2 True (box0\<lparr>Alldc := False, Allpwm := False\<rparr>))) = state box0"
proof -
  let ?s = "box0\<lparr>Alldc := False, Allpwm := False\<rparr>"
  have h1: "\<not> Alldc ?s" and h2: "\<not> Allpwm ?s" by simp_all
  have e: "tx ?s = []" "state ?s = state box0" by (simp_all add: box0_def)
  from master_toggle_off_blocks_port [of ?s 2 True 40] h1 h2
  have "SetPowerPort 2 True ?s = (Inr True, ?s)" and "SetDewPort 2 True 40 ?s = (Inr True, ?s)"
    by blast+
  then show ?thesis
    using e by simp
qed

text \<open>Peeling the last field off a comma list.\<close>

lemma last_field:
  assumes "CHR '','' \<notin> set ys"
  shows "str_find_last_of (xs @ CHR '','' # ys) CHR '','' = int (length xs)"
    and "substr (xs @ CHR '','' # ys) (int (length xs) + 1) (- 1) = Inr ys"
    and "erase_from (xs @ CHR '','' # ys) (int (length xs)) = Inr xs"
proof -
  show "str_find_last_of (xs @ CHR '','' # ys) CHR '','' = int (length xs)"
    using assms by (rule str_find_last_of_append)
  have "nat (int (length xs) + 1) = Suc (length xs)" by simp
  then show "substr (xs @ CHR '','' # ys) (int (length xs) + 1) (- 1) = Inr ys"
    by (simp add: substr_def)
  show "erase_from (xs @ CHR '','' # ys) (int (length xs)) = Inr xs"
    by (simp add: erase_from_def)
qed

lemma stoi_field:
  assumes "- 2147483648 \<le> v" and "v \<le> 2147483647"
  shows "stoi (to_string v) = Inr v"
  using stoi_to_string [of "[]" v] assms by (simp add: at0_def is_digit_def)

lemma GetNum_Z_response:
  assumes "rx s = Rd_ok (Z_response dc pwm relay bank usb) behind # rest"
    and "- 2147483648 \<le> dc" and "dc \<le> 2147483647"
    and "- 2147483648 \<le> pwm" and "pwm \<le> 2147483647"
    and "- 2147483648 \<le> relay" and "relay \<le> 2147483647"
    and "- 2147483648 \<le> bank" and "bank \<le> 2147483647"
    and "- 2147483648 \<le> usb" and "usb \<le> 2147483647"
  shows "GetNum s =
           (Inr (), (snd (Transmit CHR ''Z'' 0 s))
                      \<lparr>rx := rest, numUSB := usb, numOn := bank, numRelay := relay,
                       numPWM := pwm, numDC := dc\<rparr>)"
proof -
  define s1 where "s1 = snd (Transmit CHR ''Z'' 0 s)"
  define junk where "junk = takeWhile (\<lambda>c. c \<noteq> CHR 0x00) behind"
  define p3 where "p3 = to_string dc @ CHR '','' # to_string pwm"
  define p2 where "p2 = p3 @ CHR '','' # to_string relay"
  define p1 where "p1 = p2 @ CHR '','' # to_string bank"
  define b0 where "b0 = p1 @ CHR '','' # to_string usb"
  define buf where "buf = CHR ''Z'' # CHR '':'' # b0 @ CHR '';'' # junk"
  have b0_chars: "CHR '';'' \<notin> set b0" "CHR 0x00 \<notin> set b0" "CHR '':'' \<notin> set b0"
    using to_string_no_semicolon to_string_no_NUL to_string_no_colon
    by (simp_all add: b0_def p1_def p2_def p3_def)
  have b0_len: "length b0 \<le> 59"
    using to_string_length_int [OF assms(2,3)] to_string_length_int [OF assms(4,5)]
      to_string_length_int [OF assms(6,7)] to_string_length_int [OF assms(8,9)]
      to_string_length_int [OF assms(10,11)]
    by (simp add: b0_def p1_def p2_def p3_def)
  have frame: "Z_response dc pwm relay bank usb = CHR ''#'' # (CHR ''Z'' # CHR '':'' # b0 @ '';'')"
    by (simp add: Z_response_def b0_def p1_def p2_def p3_def)
  have rx1: "rx s1 = Rd_ok (CHR ''#'' # (CHR ''Z'' # CHR '':'' # b0 @ '';'')) behind # rest"
    using assms(1) by (simp add: s1_def Transmit_fields frame)
  have got: "ReceiveTerminated s1 = (Inr (CHR ''#'' # buf), s1\<lparr>rx := rest\<rparr>)"
    using ReceiveTerminated_frame [OF rx1] b0_chars b0_len by (simp add: buf_def junk_def)
  have tag: "at0 buf = CHR ''Z''"
    by (simp add: buf_def at0_def)
  have colon: "str_find buf CHR '':'' = 1"
    by (simp add: buf_def)
  have semi: "str_find buf CHR '';'' = 2 + int (length b0)"
  proof -
    have "str_find (b0 @ CHR '';'' # junk) CHR '';'' = int (length b0)"
      using b0_chars(1) by (rule str_find_append)
    then show ?thesis by (simp add: buf_def)
  qed
  have kept: "erase_from buf (2 + int (length b0)) = Inr (CHR ''Z'' # CHR '':'' # b0)"
  proof -
    have "nat (2 + int (length b0)) = Suc (Suc (length b0))" by simp
    then show ?thesis by (simp add: erase_from_def buf_def)
  qed
  have fields: "substr (CHR ''Z'' # CHR '':'' # b0) 2 (- 1) = Inr b0"
    by (simp add: substr_def)
  note f0 = last_field [of "to_string usb" p1, OF to_string_no_comma, folded b0_def]
  note f1 = last_field [of "to_string bank" p2, OF to_string_no_comma, folded p1_def]
  note f2 = last_field [of "to_string relay" p3, OF to_string_no_comma, folded p2_def]
  note f3 = last_field [of "to_string pwm" "to_string dc", OF to_string_no_comma, folded p3_def]
  note nums = stoi_field [OF assms(2,3)] stoi_field [OF assms(4,5)] stoi_field [OF assms(6,7)]
    stoi_field [OF assms(8,9)] stoi_field [OF assms(10,11)]
  show ?thesis
    unfolding GetNum_def s1_def [symmetric] got
    by (simp add: Let_def tag colon semi kept fields f0 f1 f2 f3 nums)
qed

lemma write_packet_wr: "wr s = [] \<Longrightarrow> wr (snd (write_packet p s)) = []"
  by (simp add: write_packet_def tty_write_string_def)

lemma Transmit_G:
  assumes "wr s = []"
  shows "tx (snd (Transmit CHR ''G'' i s)) = tx s @ [G_packet i]"
    and "wr (snd (Transmit CHR ''G'' i s)) = []"
  using assms
  by (simp_all add: Transmit_def write_packet_tx write_packet_wr G_packet_def packet_head_def)

lemma GetSwitchUSB_polled:
  assumes "rx s = Rd_ok (G_response i v) behind # rest"
    and "length v \<le> 90" and "CHR 0x00 \<notin> set v"
    and "inside (state s) i" and "length (state s) \<le> 100" and "wr s = []"
  shows "\<exists>s'. GetSwitchUSB i s = (Inr (), s') \<and> rx s' = rest \<and> wr s' = []
           \<and> tx s' = tx s @ [G_packet i] \<and> length (state s') = length (state s)"
proof -
  have i: "0 \<le> i" "i < 100" "i \<le> 32767"
    using assms(4,5) by (auto simp add: inside_def)
  have "length (to_string i) \<le> 2"
    using i(1,2) by (rule to_string_length)
  then have len: "length (G_response i v) \<le> 100"
    using assms(2) by (simp add: response_def)
  show ?thesis
    using GetSwitchUSB_same [OF assms(1) len assms(3,4) i(3)] Transmit_G [OF assms(6), of i]
    by (simp add: Transmit_fields)
qed

lemma poll_from_frames:
  assumes "n - k = d" and "k \<le> n" and "n \<le> length (state s)" and "length (state s) \<le> 100"
    and "wr s = []"
    and "rx s = map (\<lambda>j. Rd_ok (G_response (int j) (vals j)) (behinds j)) [k..<n] @ rest"
    and "\<forall>j<n. length (vals j) \<le> 90 \<and> CHR 0x00 \<notin> set (vals j)"
  shows "fst (poll_from (int k) (int n) s) = Inr ()
         \<and> tx (snd (poll_from (int k) (int n) s)) = tx s @ map (\<lambda>j. G_packet (int j)) [k..<n]
         \<and> rx (snd (poll_from (int k) (int n) s)) = rest"
  using assms
proof (induction d arbitrary: k s)
  case 0
  then have "k = n" by simp
  with 0 show ?case
    by (simp add: poll_from.simps [of "int n" "int n" s])
next
  case (Suc d)
  then have kn: "k < n" by simp
  then have upt: "[k..<n] = k # [Suc k..<n]"
    by (rule upt_conv_Cons)
  have rx: "rx s = Rd_ok (G_response (int k) (vals k)) (behinds k)
                    # (map (\<lambda>j. Rd_ok (G_response (int j) (vals j)) (behinds j)) [Suc k..<n] @ rest)"
    using Suc.prems(6) by (simp add: upt)
  have v: "length (vals k) \<le> 90" "CHR 0x00 \<notin> set (vals k)"
    using Suc.prems(7) kn by simp_all
  have ins: "inside (state s) (int k)"
    using kn Suc.prems(3) by (simp add: inside_def)
  obtain s' where step: "GetSwitchUSB (int k) s = (Inr (), s')"
    and rx': "rx s' = map (\<lambda>j. Rd_ok (G_response (int j) (vals j)) (behinds j)) [Suc k..<n] @ rest"
    and wr': "wr s' = []" and tx': "tx s' = tx s @ [G_packet (int k)]"
    and len': "length (state s') = length (state s)"
    using GetSwitchUSB_polled [OF rx v ins Suc.prems(4,5)] by blast
  have short: "to_short (int k) = int k"
    using kn Suc.prems(3,4) by (simp add: to_short_id)
  have next_call: "poll_from (int k) (int n) s = poll_from (int (Suc k)) (int n) s'"
    using kn step short by (simp add: poll_from.simps [of "int k" "int n" s] add.commute)
  have "fst (poll_from (int (Suc k)) (int n) s') = Inr ()
         \<and> tx (snd (poll_from (int (Suc k)) (int n) s')) = tx s' @ map (\<lambda>j. G_packet (int j)) [Suc k..<n]
         \<and> rx (snd (poll_from (int (Suc k)) (int n) s')) = rest"
  proof (rule Suc.IH)
    show "n - Suc k = d" using Suc.prems(1) by simp
    show "Suc k \<le> n" using kn by simp
    show "n \<le> length (state s')" using Suc.prems(3) len' by simp
    show "length (state s') \<le> 100" using Suc.prems(4) len' by simp
    show "wr s' = []" by (rule wr')
    show "rx s' = map (\<lambda>j. Rd_ok (G_response (int j) (vals j)) (behinds j)) [Suc k..<n] @ rest"
      by (rule rx')
    show "\<forall>j<n. length (vals j) \<le> 90 \<and> CHR 0x00 \<notin> set (vals j)"
      by (rule Suc.prems(7))
  qed
  then show ?case
    by (simp add: next_call tx' upt)
qed

text \<open>
  Claim C7. \<^verbatim>\<open>GetNum\<close> reads the comma list of a \<open>Z\<close> response from its tail: the
  last field becomes \<^verbatim>\<open>numUSB\<close>, the one before it \<^verbatim>\<open>numOn\<close> (the bank), then
  \<^verbatim>\<open>numRelay\<close>, then \<^verbatim>\<open>numPWM\<close>, and what is left \<^verbatim>\<open>numDC\<close>. With these counts a
  poll sweep whose reads all return the matching \<open>G\<close> response transmits one \<open>G\<close>
  packet for each index from 0 up to \<open>(numDC+numPWM+numBank)*2 + total + 4\<close>, in
  order, and returns normally. For \<open>#Z:7,3,1,1,7;\<close> the counts are 7, 3, 1, 1, 7 and the
  sweep polls 45 indices.
\<close>

theorem topology_and_poll_count:
  assumes "rx s = Rd_ok (Z_response dc pwm relay bank usb) behind # rest"
    and "- 2147483648 \<le> dc" and "dc \<le> 2147483647"
    and "- 2147483648 \<le> pwm" and "pwm \<le> 2147483647"
    and "- 2147483648 \<le> relay" and "relay \<le> 2147483647"
    and "- 2147483648 \<le> bank" and "bank \<le> 2147483647"
    and "- 2147483648 \<le> usb" and "usb \<le> 2147483647"
    and "numDC t = dc" and "numPWM t = pwm" and "numRelay t = relay"
    and "numOn t = bank" and "numUSB t = usb"
    and "n = nat ((dc + pwm + bank) * 2 + (dc + pwm + bank + relay + usb) + 4)"
    and "n \<le> length (state t)" and "length (state t) \<le> 100" and "wr t = []"
    and "rx t = map (\<lambda>j. Rd_ok (G_response (int j) (vals j)) (behinds j)) [0..<n] @ rest'"
    and "\<forall>j<n. length (vals j) \<le> 90 \<and> CHR 0x00 \<notin> set (vals j)"
  shows "GetNum s =
           (Inr (), (snd (Transmit CHR ''Z'' 0 s))
                      \<lparr>rx := rest, numUSB := usb, numOn := bank, numRelay := relay,
                       numPWM := pwm, numDC := dc\<rparr>)
         \<and> fst (TimerHit_sweep t) = Inr ()
         \<and> tx (snd (TimerHit_sweep t)) = tx t @ map (\<lambda>j. G_packet (int j)) [0..<n]
         \<and> rx (snd (TimerHit_sweep t)) = rest'
         \<and> length (tx (snd (TimerHit_sweep t))) = length (tx t) + n"
proof -
  have parse: "GetNum s =
           (Inr (), (snd (Transmit CHR ''Z'' 0 s))
                      \<lparr>rx := rest, numUSB := usb, numOn := bank, numRelay := relay,
                       numPWM := pwm, numDC := dc\<rparr>)"
    using assms(1-11) by (rule GetNum_Z_response)
  have count: "numSwitch t = (dc + pwm + bank) * 2 + (dc + pwm + bank + relay + usb) + 4"
    using assms(12-16) by (simp add: numSwitch_def total_def)
  have "0 \<le> n" by simp
  have sweep: "TimerHit_sweep t = poll_from (int 0) (int n) t"
  proof (cases "0 \<le> numSwitch t")
    case True
    then show ?thesis
      using count assms(17) by (simp add: TimerHit_sweep_def)
  next
    case False
    then have "n = 0" using count assms(17) by simp
    with False show ?thesis
      by (simp add: TimerHit_sweep_def poll_from.simps [of 0])
  qed
  have "fst (poll_from (int 0) (int n) t) = Inr ()
         \<and> tx (snd (poll_from (int 0) (int n) t)) = tx t @ map (\<lambda>j. G_packet (int j)) [0..<n]
         \<and> rx (snd (poll_from (int 0) (int n) t)) = rest'"
    using poll_from_frames [where d = n and k = 0 and n = n and s = t and vals = vals
        and behinds = behinds and rest = rest'] assms(18-22)
    by simp
  then show ?thesis
    using parse by (simp add: sweep)
qed

theorem topology_and_poll_count_witness:
  "numDC (snd (GetNum discovery_input)) = 7
   \<and> numPWM (snd (GetNum discovery_input)) = 3
   \<and> numRelay (snd (GetNum discovery_input)) = 1
   \<and> numOn (snd (GetNum discovery_input)) = 1
   \<and> numUSB (snd (GetNum discovery_input)) = 7
   \<and> numSwitch poll_input = 45
   \<and> fst (TimerHit_sweep poll_input) = Inr ()
   \<and> length (tx (snd (TimerHit_sweep poll_input))) = 45"
proof -
  have z: "rx discovery_input = Rd_ok (Z_response 7 3 1 1 7) [] # []"
    by (simp add: discovery_input_def Z_response_def)
  have c: "numDC poll_input = 7" "numPWM poll_input = 3" "numRelay poll_input = 1"
    "numOn poll_input = 1" "numUSB poll_input = 7"
    by (simp_all add: poll_input_def box0_def)
  have n: "45 = nat ((7 + 3 + 1) * 2 + (7 + 3 + 1 + 1 + 7) + 4)" by simp
  have st: "45 \<le> length (state poll_input)" "length (state poll_input) \<le> 100"
    "wr poll_input = []" "tx poll_input = []"
    by (simp_all add: poll_input_def box0_def)
  have r: "rx poll_input = map (\<lambda>j. Rd_ok (G_response (int j) ((\<lambda>j. ''0'') j)) ((\<lambda>j. []) j)) [0..<45] @ []"
    by (simp add: poll_input_def)
  have v: "\<forall>j<45. length ((\<lambda>j. ''0'') j) \<le> 90 \<and> CHR 0x00 \<notin> set ((\<lambda>j. ''0'') j)"
    by simp
  have "GetNum discovery_input =
           (Inr (), (snd (Transmit CHR ''Z'' 0 discovery_input))
                      \<lparr>rx := [], numUSB := 7, numOn := 1, numRelay := 1, numPWM := 3, numDC := 7\<rparr>)
         \<and> fst (TimerHit_sweep poll_input) = Inr ()
         \<and> tx (snd (TimerHit_sweep poll_input)) = tx poll_input @ map (\<lambda>j. G_packet (int j)) [0..<45]
         \<and> rx (snd (TimerHit_sweep poll_input)) = []
         \<and> length (tx (snd (TimerHit_sweep poll_input))) = length (tx poll_input) + 45"
    by (rule topology_and_poll_count [OF z _ _ _ _ _ _ _ _ _ _ c n st(1-3) r v]) simp_all
  then show ?thesis
    using c st(4) by (simp add: numSwitch_def total_def)
qed

lemma caches_simps [simp]:
  "caches (s\<lparr>rx := r\<rparr>) = caches s"
  "caches (LOG_INFO m s) = caches s"
  "caches (snd (Transmit c i s)) = caches s"
  "caches (snd (Transmit_int c i v s)) = caches s"
  "caches (snd (Transmit_string c i name s)) = caches s"
  "caches (snd (Transmit_float ftos c i x s)) = caches s"
  by (simp_all add: caches_def LOG_INFO_def Transmit_def Transmit_int_def Transmit_string_def
      Transmit_float_def Let_def write_packet_fields)









end
